theory Spec2Isabelle
  imports Complex_Main
begin

section \<open>K-Means clustering loss (pydbm, \<^verbatim>\<open>k_means_loss.pyx\<close>)\<close>

text \<open>
  The class \<^verbatim>\<open>KMeansLoss\<close> holds one field, the weight, and has one public
  method, \<^verbatim>\<open>compute_clustering_loss\<close>, built on the private helper
  \<^verbatim>\<open>__assign_label\<close> and on four numpy operations: \<^verbatim>\<open>nanmean\<close>,
  \<^verbatim>\<open>argmax\<close>, \<^verbatim>\<open>square\<close> and the broadcasting product.

  Numbers. A float64 is NaN, one of the two infinities, or a real number. The arithmetic
  is that of IEEE 754 binary64: every product, sum and quotient is rounded to the nearest
  float64 number, a tie going to the even one, with subnormal numbers below \<open>2\<^sup>-\<^sup>1\<^sup>0\<^sup>2\<^sup>2\<close>
  and overflow to an infinity from \<open>2\<^sup>1\<^sup>0\<^sup>2\<^sup>4\<close> on; the operations on infinities and NaN
  are those of the standard (\<open>0 \<times> \<infinity>\<close> and \<open>\<infinity> - \<infinity>\<close> are NaN). The sign of zero is not
  modelled: there is one zero. An entry of an input array may be any real number; the
  float64 numbers among them are those that rounding leaves unchanged (\<open>is_float64\<close>).

  Sums. \<^verbatim>\<open>np.sum\<close> adds the entries of a slice to 0 from left to right. This is
  the order of numpy for a slice of fewer than eight entries and for an axis that is not
  contiguous in memory; a contiguous axis of eight or more entries is added in blocks,
  which can change the rounding of the sum. The slices summed along the cluster axis have,
  once their NaNs are replaced by 0, at most one entry other than 0, so their sum is that
  entry in any order; the statements about label assignment speak of the reduced array,
  whatever the order of the additions that produced it.

  Arrays. An ndarray is a nested list, outermost axis first; the theorems assume the
  lists rectangular (\<open>rect3\<close>). A nested list with no rows carries no inner dimensions,
  so the shape of an array with a zero-length axis is read as far as the lists show it.
\<close>

subsection \<open>Numbers\<close>

datatype npfloat = NaN | PInf | NInf | Fin real

fun isnan :: "npfloat \<Rightarrow> bool" where
  "isnan NaN = True"
| "isnan a = False"

fun isfinite :: "npfloat \<Rightarrow> bool" where
  "isfinite (Fin x) = True"
| "isfinite a = False"

text \<open>The real value of a number; 0 for the infinities and NaN, where it is not used.\<close>

fun val :: "npfloat \<Rightarrow> real" where
  "val (Fin x) = x"
| "val a = 0"

text \<open>The sign: 1, -1, or 0 for zero and for NaN.\<close>

fun fsign :: "npfloat \<Rightarrow> real" where
  "fsign (Fin x) = sgn x"
| "fsign PInf = 1"
| "fsign NInf = - 1"
| "fsign NaN = 0"

text \<open>Rounding a real number to the nearest integer, a tie going to the even one.\<close>

definition round_half_even :: "real \<Rightarrow> int" where
  "round_half_even x =
     (let f = \<lfloor>x\<rfloor> in
      if x - of_int f < 1 / 2 then f
      else if 1 / 2 < x - of_int f then f + 1
      else if even f then f else f + 1)"

definition pow2 :: "int \<Rightarrow> real" where
  "pow2 e = 2 powr of_int e"

text \<open>The first power of two that is too large for a float64.\<close>

definition huge :: real where
  "huge = 2 ^ 1024"

text \<open>
  The exponent of the last of the 53 bits of a number \<open>x \<noteq> 0\<close>: 52 below the exponent of
  \<open>x\<close>, and never below -1074, the exponent of the smallest subnormal number.
\<close>

definition quantum :: "real \<Rightarrow> int" where
  "quantum x = max \<lfloor>log 2 \<bar>x\<bar>\<rfloor> (- 1022) - 52"

definition nearest :: "real \<Rightarrow> real" where
  "nearest x = of_int (round_half_even (x / pow2 (quantum x))) * pow2 (quantum x)"

text \<open>
  The rounding of IEEE 754 binary64, to nearest, ties to even: a real number is rounded
  to a multiple of its quantum, and a result of magnitude \<open>2\<^sup>1\<^sup>0\<^sup>2\<^sup>4\<close> or more is the
  infinity of its sign.
\<close>

definition fl64 :: "real \<Rightarrow> npfloat" where
  "fl64 x =
     (if x = 0 then Fin 0
      else if huge \<le> \<bar>nearest x\<bar> then (if 0 < x then PInf else NInf)
      else Fin (nearest x))"

text \<open>The values a float64 can hold.\<close>

definition is_float64 :: "npfloat \<Rightarrow> bool" where
  "is_float64 a = (case a of Fin r \<Rightarrow> fl64 r = Fin r | _ \<Rightarrow> True)"

text \<open>The product of two doubles.\<close>

definition ieee_mul :: "npfloat \<Rightarrow> npfloat \<Rightarrow> npfloat" where
  "ieee_mul a b =
     (if isfinite a \<and> isfinite b then fl64 (val a * val b)
      else if isnan a \<or> isnan b \<or> fsign a * fsign b = 0 then NaN
      else if 0 < fsign a * fsign b then PInf else NInf)"

text \<open>The sum of two doubles.\<close>

definition ieee_add :: "npfloat \<Rightarrow> npfloat \<Rightarrow> npfloat" where
  "ieee_add a b =
     (if isfinite a \<and> isfinite b then fl64 (val a + val b)
      else if isnan a \<or> isnan b then NaN
      else if isfinite a then b
      else if isfinite b then a
      else if a = b then a else NaN)"

text \<open>
  The quotient of a double by a count, as \<^verbatim>\<open>np.true_divide\<close> computes it for
  \<^verbatim>\<open>nanmean\<close>: 0/0 is NaN, another number over 0 is an infinity.
\<close>

definition ieee_div :: "npfloat \<Rightarrow> nat \<Rightarrow> npfloat" where
  "ieee_div a n =
     (if n = 0 then (if isnan a \<or> fsign a = 0 then NaN else if 0 < fsign a then PInf else NInf)
      else if isfinite a then fl64 (val a / real n)
      else a)"

text \<open>\<^verbatim>\<open>np.square\<close> on one entry.\<close>

definition square :: "npfloat \<Rightarrow> npfloat" where
  "square a = ieee_mul a a"

text \<open>The comparison \<^verbatim>\<open>a <= b\<close> of C doubles: false as soon as one side is NaN.\<close>

fun fle :: "npfloat \<Rightarrow> npfloat \<Rightarrow> bool" where
  "fle NaN b = False"
| "fle a NaN = False"
| "fle NInf b = True"
| "fle a PInf = True"
| "fle (Fin x) (Fin y) = (x \<le> y)"
| "fle a b = False"

text \<open>\<^verbatim>\<open>_replace_nan(a, 0)\<close> of numpy's nanmean: a NaN counts as 0 in the sum.\<close>

fun nan_to_zero :: "npfloat \<Rightarrow> npfloat" where
  "nan_to_zero NaN = Fin 0"
| "nan_to_zero a = a"

subsection \<open>Arrays, shapes and errors\<close>

type_synonym arr1 = "npfloat list"
type_synonym arr2 = "npfloat list list"
type_synonym arr3 = "npfloat list list list"

datatype py_error = IndexError | ValueError

definition shape0 :: "'a list \<Rightarrow> nat" where
  "shape0 a = length a"

definition shape1 :: "'a list list \<Rightarrow> nat" where
  "shape1 a = (case a of [] \<Rightarrow> 0 | r # _ \<Rightarrow> length r)"

definition shape2 :: "'a list list list \<Rightarrow> nat" where
  "shape2 a = (case a of [] \<Rightarrow> 0 | r # _ \<Rightarrow> (case r of [] \<Rightarrow> 0 | c # _ \<Rightarrow> length c))"

text \<open>An \<open>n \<times> k \<times> d\<close> array.\<close>

definition rect3 :: "nat \<Rightarrow> nat \<Rightarrow> nat \<Rightarrow> 'a list list list \<Rightarrow> bool" where
  "rect3 n k d a \<longleftrightarrow>
     length a = n \<and> list_all (\<lambda>r. length r = k \<and> list_all (\<lambda>c. length c = d) r) a"

text \<open>Running a fallible step over a list, stopping at the first error.\<close>

primrec mapM_err :: "('a \<Rightarrow> py_error + 'b) \<Rightarrow> 'a list \<Rightarrow> py_error + 'b list" where
  "mapM_err f [] = Inr []"
| "mapM_err f (x # xs) =
     (case f x of
        Inl e \<Rightarrow> Inl e
      | Inr y \<Rightarrow> (case mapM_err f xs of Inl e \<Rightarrow> Inl e | Inr ys \<Rightarrow> Inr (y # ys)))"

subsection \<open>The numpy operations the method calls\<close>

text \<open>\<^verbatim>\<open>np.sum\<close> on one slice: the entries are added to 0 one after the other.\<close>

definition fsum :: "arr1 \<Rightarrow> npfloat" where
  "fsum xs = foldl ieee_add (Fin 0) xs"

text \<open>
  \<^verbatim>\<open>np.nanmean\<close> along one axis, on one slice: the NaNs are replaced by 0 and summed
  with the rest, and the sum is divided by the number of entries that are not NaN; a slice
  without such an entry gives 0/0, that is NaN (numpy warns and returns it). An infinity
  is not a NaN: it stays in the sum and is counted.
\<close>

definition nanmean :: "arr1 \<Rightarrow> npfloat" where
  "nanmean xs =
     (let cnt = length (filter (\<lambda>x. \<not> isnan x) xs);
          tot = fsum (map nan_to_zero xs)
      in ieee_div tot cnt)"

text \<open>\<^verbatim>\<open>np.nanmean(a, axis=2)\<close>: \<open>n \<times> k \<times> m\<close> to \<open>n \<times> k\<close>.\<close>

definition nanmean_axis2 :: "arr3 \<Rightarrow> arr2" where
  "nanmean_axis2 a = map (map nanmean) a"

text \<open>\<^verbatim>\<open>np.nanmean(a, axis=1)\<close>: \<open>n \<times> k \<times> d\<close> to \<open>n \<times> d\<close>.\<close>

definition nanmean_axis1 :: "arr3 \<Rightarrow> arr2" where
  "nanmean_axis1 a =
     map (\<lambda>row. map (\<lambda>d. nanmean (map (\<lambda>c. c ! d) row)) [0..<shape2 a]) a"

text \<open>
  \<^verbatim>\<open>argmax\<close> on one row, as numpy's scan for doubles runs: the first entry is the
  running maximum; a later entry replaces it when \<^verbatim>\<open>!(x <= max)\<close>; a NaN, once met,
  is maximal and ends the scan. An empty row raises ValueError.
\<close>

fun argmax_scan :: "npfloat \<Rightarrow> nat \<Rightarrow> nat \<Rightarrow> arr1 \<Rightarrow> nat" where
  "argmax_scan mp max_ind i [] = max_ind"
| "argmax_scan mp max_ind i (x # xs) =
     (if \<not> fle x mp
      then (if isnan x then i else argmax_scan x i (Suc i) xs)
      else argmax_scan mp max_ind (Suc i) xs)"

definition argmax :: "arr1 \<Rightarrow> py_error + nat" where
  "argmax xs =
     (case xs of
        [] \<Rightarrow> Inl ValueError
      | x # rest \<Rightarrow> if isnan x then Inr 0 else Inr (argmax_scan x 0 1 rest))"

text \<open>
  Broadcasting along one axis: equal lengths pair up, a length of 1 is stretched, anything
  else is numpy's "operands could not be broadcast together".
\<close>

definition broadcast :: "'a list \<Rightarrow> 'b list \<Rightarrow> py_error + ('a \<times> 'b) list" where
  "broadcast xs ys =
     (if length xs = length ys then Inr (zip xs ys)
      else if length xs = 1 then Inr (map (\<lambda>y. (hd xs, y)) ys)
      else if length ys = 1 then Inr (map (\<lambda>x. (x, hd ys)) xs)
      else Inl ValueError)"

definition bmul1 :: "arr1 \<Rightarrow> arr1 \<Rightarrow> py_error + arr1" where
  "bmul1 a b =
     (case broadcast a b of Inl e \<Rightarrow> Inl e | Inr ps \<Rightarrow> Inr (map (\<lambda>(x, y). ieee_mul x y) ps))"

definition bmul2 :: "arr2 \<Rightarrow> arr2 \<Rightarrow> py_error + arr2" where
  "bmul2 a b =
     (case broadcast a b of Inl e \<Rightarrow> Inl e | Inr ps \<Rightarrow> mapM_err (\<lambda>(x, y). bmul1 x y) ps)"

definition bmul3 :: "arr3 \<Rightarrow> arr3 \<Rightarrow> py_error + arr3" where
  "bmul3 a b =
     (case broadcast a b of Inl e \<Rightarrow> Inl e | Inr ps \<Rightarrow> mapM_err (\<lambda>(x, y). bmul2 x y) ps)"

definition square3 :: "arr3 \<Rightarrow> arr3" where
  "square3 a = map (map (map square)) a"

definition zeros :: "nat \<Rightarrow> nat \<Rightarrow> arr2" where
  "zeros n k = replicate n (replicate k (Fin 0))"

definition expand_dims2 :: "arr2 \<Rightarrow> arr3" where
  "expand_dims2 a = map (map (\<lambda>x. [x])) a"

subsection \<open>The class\<close>

record KMeansLoss =
  weight :: npfloat

text \<open>\<^verbatim>\<open>__init__(self, weight=0.125)\<close>: \<open>None\<close> is the call without the argument.\<close>

definition init :: "npfloat option \<Rightarrow> KMeansLoss" where
  "init w = \<lparr>weight = (case w of None \<Rightarrow> Fin 0.125 | Some v \<Rightarrow> v)\<rparr>"

text \<open>
  Lines 66 to 68 of \<^verbatim>\<open>__assign_label\<close>: the trailing axis is averaged away when it
  is longer than 1, and the array is reshaped to \<open>n \<times> k\<close>. The reshape of an
  \<open>n \<times> k \<times> 1\<close> array takes the one entry of every cell; a cell of another size cannot
  be reshaped (ValueError).
\<close>

definition reshape_cell :: "arr1 \<Rightarrow> py_error + npfloat" where
  "reshape_cell c = (case c of [x] \<Rightarrow> Inr x | _ \<Rightarrow> Inl ValueError)"

definition collapse_q :: "arr3 \<Rightarrow> py_error + arr2" where
  "collapse_q q_arr =
     (if shape2 q_arr > 1 then Inr (nanmean_axis2 q_arr)
      else mapM_err (mapM_err reshape_cell) q_arr)"

text \<open>Line 69: \<^verbatim>\<open>q_arr.argmax(axis=1)\<close>.\<close>

definition assign_label :: "arr3 \<Rightarrow> py_error + nat list" where
  "assign_label q_arr =
     (case collapse_q q_arr of Inl e \<Rightarrow> Inl e | Inr q \<Rightarrow> mapM_err argmax q)"

text \<open>
  Lines 57 and 58, the loop \<^verbatim>\<open>t_hot_arr[i, label_arr[i]] = 1\<close> from row \<open>i\<close> on:
  a label that is not below the number of columns raises IndexError.
\<close>

fun fill_hot :: "nat \<Rightarrow> nat \<Rightarrow> nat list \<Rightarrow> arr2 \<Rightarrow> py_error + arr2" where
  "fill_hot k i [] t = Inr t"
| "fill_hot k i (l # ls) t =
     (if l < k then fill_hot k (Suc i) ls (t[i := (t ! i)[l := Fin 1]])
      else Inl IndexError)"

text \<open>Lines 56 to 59: the mask, \<open>n \<times> k \<times> 1\<close>, with \<open>k\<close> read from \<^verbatim>\<open>delta_arr.shape[1]\<close>.\<close>

definition t_hot_arr :: "nat list \<Rightarrow> arr3 \<Rightarrow> py_error + arr3" where
  "t_hot_arr label_arr delta_arr =
     (case fill_hot (shape1 delta_arr) 0 label_arr
             (zeros (shape0 label_arr) (shape1 delta_arr)) of
        Inl e \<Rightarrow> Inl e
      | Inr t \<Rightarrow> Inr (expand_dims2 t))"

text \<open>
  Line 60: the masked squared distances. \<^verbatim>\<open>astype(np.float)\<close> leaves the float64
  mask as it is (\<^verbatim>\<open>np.float\<close> is Python's float, in the numpy releases that have
  it), and the product broadcasts the mask over the feature axis. The product of the mask's
  0 and a square that is an infinity or NaN is NaN.
\<close>

definition delta_kmeans_arr :: "nat list \<Rightarrow> arr3 \<Rightarrow> py_error + arr3" where
  "delta_kmeans_arr label_arr delta_arr =
     (case t_hot_arr label_arr delta_arr of
        Inl e \<Rightarrow> Inl e
      | Inr t \<Rightarrow> bmul3 t (square3 delta_arr))"

text \<open>Line 62: the product with the weight.\<close>

definition scale :: "arr2 \<Rightarrow> npfloat \<Rightarrow> arr2" where
  "scale z w = map (map (\<lambda>x. ieee_mul x w)) z"

text \<open>
  \<^verbatim>\<open>compute_clustering_loss\<close>. The observed, reconstructed and feature arrays and
  \<^verbatim>\<open>p_arr\<close> are parameters that the body never reads. The second and third
  components of the result are Python's \<open>None\<close>.
\<close>

definition compute_clustering_loss ::
  "KMeansLoss \<Rightarrow> arr2 \<Rightarrow> arr2 \<Rightarrow> arr2 \<Rightarrow> arr3 \<Rightarrow> arr3 \<Rightarrow> arr2
     \<Rightarrow> py_error + (arr2 \<times> arr2 option \<times> arr2 option)" where
  "compute_clustering_loss self observed_arr reconstructed_arr feature_arr delta_arr q_arr p_arr =
     (case assign_label q_arr of
        Inl e \<Rightarrow> Inl e
      | Inr label_arr \<Rightarrow>
          (case delta_kmeans_arr label_arr delta_arr of
             Inl e \<Rightarrow> Inl e
           | Inr dk \<Rightarrow> Inr (scale (nanmean_axis1 dk) (weight self), None, None)))"

subsection \<open>The product of line 62 with an exponent that is not bounded\<close>

text \<open>
  The statement about weights that differ by a power of two sets overflow and underflow
  aside. For it the product with the weight is given a second time, rounded to the nearest
  number with 53 significant bits, a tie going to the even one, with no bound on the
  exponent: it is the float64 product wherever that neither overflows nor falls among the
  subnormal numbers (\<open>fl64_binary64\<close> below). The exact product \<open>fmul\<close> is what \<open>c\<close> times
  a number means in that statement.
\<close>

definition binary64 :: "real \<Rightarrow> real" where
  "binary64 x =
     (if x = 0 then 0
      else of_int (round_half_even (x / 2 powr of_int (\<lfloor>log 2 \<bar>x\<bar>\<rfloor> - 52)))
           * 2 powr of_int (\<lfloor>log 2 \<bar>x\<bar>\<rfloor> - 52))"

fun fmul :: "npfloat \<Rightarrow> npfloat \<Rightarrow> npfloat" where
  "fmul (Fin x) (Fin y) = Fin (x * y)"
| "fmul a b =
     (if isnan a \<or> isnan b \<or> fsign a * fsign b = 0 then NaN
      else if 0 < fsign a * fsign b then PInf else NInf)"

fun fmul64 :: "npfloat \<Rightarrow> npfloat \<Rightarrow> npfloat" where
  "fmul64 (Fin x) (Fin y) = Fin (binary64 (x * y))"
| "fmul64 a b =
     (if isnan a \<or> isnan b \<or> fsign a * fsign b = 0 then NaN
      else if 0 < fsign a * fsign b then PInf else NInf)"

definition scale64 :: "arr2 \<Rightarrow> npfloat \<Rightarrow> arr2" where
  "scale64 z w = map (map (\<lambda>x. fmul64 x w)) z"

text \<open>
  \<^verbatim>\<open>compute_clustering_loss\<close> with this product in line 62 and lines 55 to 61 as
  above.
\<close>

definition compute_clustering_loss64 ::
  "KMeansLoss \<Rightarrow> arr2 \<Rightarrow> arr2 \<Rightarrow> arr2 \<Rightarrow> arr3 \<Rightarrow> arr3 \<Rightarrow> arr2
     \<Rightarrow> py_error + (arr2 \<times> arr2 option \<times> arr2 option)" where
  "compute_clustering_loss64 self observed_arr reconstructed_arr feature_arr delta_arr q_arr p_arr =
     (case assign_label q_arr of
        Inl e \<Rightarrow> Inl e
      | Inr label_arr \<Rightarrow>
          (case delta_kmeans_arr label_arr delta_arr of
             Inl e \<Rightarrow> Inl e
           | Inr dk \<Rightarrow> Inr (scale64 (nanmean_axis1 dk) (weight self), None, None)))"

subsection \<open>Notions used in the statements\<close>

text \<open>A row of the mask before \<^verbatim>\<open>expand_dims\<close>: zeros, and a 1 at the label.\<close>

definition one_hot :: "nat \<Rightarrow> nat \<Rightarrow> arr1" where
  "one_hot k l = (replicate k (Fin 0))[l := Fin 1]"

text \<open>The value of \<open>delta_kmeans_arr\<close> for labels in range, entry by entry.\<close>

definition masked :: "nat \<Rightarrow> nat list \<Rightarrow> arr3 \<Rightarrow> arr3" where
  "masked k ls delta =
     map2 (\<lambda>l dr. map2 (\<lambda>m c. map (\<lambda>x. ieee_mul m (square x)) c) (one_hot k l) dr) ls delta"

text \<open>
  One slice along the cluster axis of the masked squared distances: sample row \<open>row\<close>
  (a \<open>k \<times> d\<close> matrix), label \<open>l\<close>, feature index \<open>e\<close>.
\<close>

definition masked_slice :: "nat \<Rightarrow> nat \<Rightarrow> arr2 \<Rightarrow> nat \<Rightarrow> arr1" where
  "masked_slice k l row e =
     map (\<lambda>j. ieee_mul (if j = l then Fin 1 else Fin 0) (square (row ! j ! e))) [0..<k]"

text \<open>The encoder delta, entry by entry: the mean of each slice, times the weight.\<close>

definition encoder_delta :: "npfloat \<Rightarrow> nat \<Rightarrow> nat \<Rightarrow> nat list \<Rightarrow> arr3 \<Rightarrow> arr2" where
  "encoder_delta w k d ls delta =
     map (\<lambda>i. map (\<lambda>e. ieee_mul (nanmean (masked_slice k (ls ! i) (delta ! i) e)) w) [0..<d])
       [0..<length ls]"

text \<open>
  The reduction of the trailing axis in the words of the specification: the NaN-tolerant
  mean when the axis is longer than 1, the single entry when its length is 1.
\<close>

definition collapse_cell :: "nat \<Rightarrow> arr1 \<Rightarrow> npfloat" where
  "collapse_cell m c = (if 1 < m then nanmean c else c ! 0)"

text \<open>The index \<open>argmax\<close> returns on a row that is not empty.\<close>

definition argmax_index :: "arr1 \<Rightarrow> nat" where
  "argmax_index xs = (case argmax xs of Inr i \<Rightarrow> i | Inl e \<Rightarrow> 0)"


text \<open>
  The number of clusters other than \<open>l\<close> whose entry of \<open>delta_arr\<close> is NaN, for one
  sample row and one feature index.
\<close>

definition nan_others :: "nat \<Rightarrow> nat \<Rightarrow> arr2 \<Rightarrow> nat \<Rightarrow> nat" where
  "nan_others k l row e = length (filter (\<lambda>j. j \<noteq> l \<and> isnan (row ! j ! e)) [0..<k])"

text \<open>
  The number of clusters other than \<open>l\<close> whose entry of \<open>delta_arr\<close> has a square that
  is not a number: the entry is NaN or an infinity, or its square overflows.
\<close>

definition nonfinite_others :: "nat \<Rightarrow> nat \<Rightarrow> arr2 \<Rightarrow> nat \<Rightarrow> nat" where
  "nonfinite_others k l row e =
     length (filter (\<lambda>j. j \<noteq> l \<and> \<not> isfinite (square (row ! j ! e))) [0..<k])"

text \<open>A float64 number whose square overflows, for the examples.\<close>

definition big :: real where
  "big = 2 ^ 700"

section \<open>Properties of the rounding\<close>

lemma pow2_pos [simp]: "0 < pow2 e"
  by (simp add: pow2_def)

lemma pow2_neq0 [simp]: "pow2 e \<noteq> 0"
  using pow2_pos[of e] by linarith

lemma abs_pow2 [simp]: "\<bar>pow2 e\<bar> = pow2 e"
  using pow2_pos[of e] by linarith

lemma pow2_add: "pow2 (a + b) = pow2 a * pow2 b"
  by (simp add: pow2_def powr_add)

lemma pow2_nat: "pow2 (int n) = 2 ^ n"
  by (simp add: pow2_def powr_realpow)

lemma pow2_neg_nat: "pow2 (- int n) = 1 / 2 ^ n"
  by (simp add: pow2_def powr_minus powr_realpow inverse_eq_divide)

lemma pow2_0 [simp]: "pow2 0 = 1"
  by (simp add: pow2_def)

lemma pow2_mono: "a \<le> b \<Longrightarrow> pow2 a \<le> pow2 b"
  by (simp add: pow2_def)

lemma log_less_pow2: "x \<noteq> 0 \<Longrightarrow> log 2 \<bar>x\<bar> < of_int e \<longleftrightarrow> \<bar>x\<bar> < pow2 e"
  by (simp add: pow2_def log_less_iff)

lemma round_half_even_of_int [simp]: "round_half_even (of_int z) = z"
  by (simp add: round_half_even_def)

lemma round_half_even_bounds:
  "\<lfloor>x\<rfloor> \<le> round_half_even x \<and> round_half_even x \<le> \<lfloor>x\<rfloor> + 1"
  by (simp add: round_half_even_def Let_def)

lemma round_half_even_le:
  assumes "x \<le> of_int M"
  shows "round_half_even x \<le> M"
proof (cases "x = of_int M")
  case True
  then show ?thesis by simp
next
  case False
  with assms have "x < of_int M" by simp
  then have "\<lfloor>x\<rfloor> < M" by (simp add: floor_less_iff)
  then show ?thesis using round_half_even_bounds[of x] by linarith
qed

lemma round_half_even_ge:
  assumes "of_int M \<le> x"
  shows "M \<le> round_half_even x"
proof -
  have "M \<le> \<lfloor>x\<rfloor>" using assms by (simp add: le_floor_iff)
  then show ?thesis using round_half_even_bounds[of x] by linarith
qed

lemma round_half_even_abs_le:
  assumes "\<bar>y\<bar> \<le> of_int M"
  shows "\<bar>round_half_even y\<bar> \<le> M"
proof -
  have "y \<le> of_int M" "of_int (- M) \<le> y" using assms by auto
  then have "round_half_even y \<le> M" "- M \<le> round_half_even y"
    using round_half_even_le round_half_even_ge by blast+
  then show ?thesis by simp
qed

lemma fl64_zero [simp]: "fl64 0 = Fin 0"
  by (simp add: fl64_def)

lemma fl64_not_nan [simp]: "\<not> isnan (fl64 x)"
  by (simp add: fl64_def)

lemma fl64_neq_NaN [simp]: "fl64 x \<noteq> NaN"
  using fl64_not_nan[of x] by (cases "fl64 x") auto

lemma fl64_Fin: "fl64 x = Fin r \<Longrightarrow> x \<noteq> 0 \<Longrightarrow> r = nearest x \<and> \<bar>r\<bar> < huge"
  by (auto simp: fl64_def split: if_splits)

lemma quantum_ge [simp]: "- 1074 \<le> quantum x"
  by (simp add: quantum_def)

text \<open>The scaled number that is rounded to an integer has fewer than 54 bits.\<close>

lemma scaled_bound:
  assumes "x \<noteq> 0"
  shows "\<bar>x / pow2 (quantum x)\<bar> < 2 ^ 53"
proof -
  have "log 2 \<bar>x\<bar> < of_int (\<lfloor>log 2 \<bar>x\<bar>\<rfloor> + 1)" by linarith
  also have "\<dots> \<le> of_int (quantum x + 53)"
    unfolding quantum_def of_int_le_iff by simp
  finally have "\<bar>x\<bar> < pow2 (quantum x + 53)"
    using log_less_pow2[OF assms] by blast
  also have "\<dots> = pow2 (quantum x) * 2 ^ 53"
    using pow2_nat[of 53] by (simp add: pow2_add)
  finally have "\<bar>x\<bar> / pow2 (quantum x) < 2 ^ 53"
    by (simp add: pos_divide_less_eq mult.commute)
  then show ?thesis by (simp add: abs_divide)
qed

text \<open>A number \<open>n * 2^e\<close> with fewer than 54 bits in \<open>n\<close>, in range, is a float64 number.\<close>

lemma fl64_fixed:
  assumes n: "\<bar>n\<bar> < 2 ^ 53" and e: "- 1074 \<le> e"
    and r: "\<bar>of_int n * pow2 e\<bar> < huge"
  shows "fl64 (of_int n * pow2 e) = Fin (of_int n * pow2 e)"
proof (cases "n = 0")
  case True
  then show ?thesis by simp
next
  case False
  define x :: real where "x = of_int n * pow2 e"
  define e' where "e' = quantum x"
  have x0: "x \<noteq> 0" using False by (simp add: x_def)
  have ax: "\<bar>x\<bar> = \<bar>real_of_int n\<bar> * pow2 e" by (simp add: x_def abs_mult)
  have "\<bar>real_of_int n\<bar> < 2 ^ 53"
    using n by (metis of_int_abs of_int_less_numeral_power_cancel_iff)
  then have "\<bar>x\<bar> < 2 ^ 53 * pow2 e" unfolding ax by simp
  also have "\<dots> = pow2 (53 + e)" using pow2_nat[of 53] by (simp add: pow2_add)
  finally have "log 2 \<bar>x\<bar> < of_int (53 + e)"
    using log_less_pow2[OF x0] by blast
  then have "\<lfloor>log 2 \<bar>x\<bar>\<rfloor> < 53 + e" by (simp only: floor_less_iff)
  then have le: "e' \<le> e" using e by (simp add: e'_def quantum_def)
  define d where "d = nat (e - e')"
  have de: "e = e' + int d" using le by (simp add: d_def)
  have p: "pow2 e = pow2 e' * 2 ^ d"
    by (subst de) (simp add: pow2_add pow2_nat)
  have q: "x / pow2 e' = of_int (n * 2 ^ d)"
    by (simp add: x_def p)
  have "nearest x = x"
    unfolding nearest_def e'_def[symmetric] q round_half_even_of_int by (simp add: x_def p)
  moreover have "\<bar>x\<bar> < huge" using r by (simp add: x_def)
  ultimately have "fl64 x = Fin x"
    using x0 by (simp add: fl64_def)
  then show ?thesis by (simp add: x_def)
qed

lemma fl64_idem:
  assumes "fl64 x = Fin r"
  shows "fl64 r = Fin r"
proof (cases "x = 0")
  case True
  with assms show ?thesis by simp
next
  case False
  define e where "e = quantum x"
  define N where "N = round_half_even (x / pow2 e)"
  have e: "- 1074 \<le> e" by (simp add: e_def)
  from fl64_Fin[OF assms False] have "r = nearest x" and b: "\<bar>r\<bar> < huge"
    by blast+
  then have r: "r = of_int N * pow2 e"
    by (simp add: nearest_def e_def N_def)
  have "\<bar>x / pow2 e\<bar> \<le> of_int (2 ^ 53)"
    using scaled_bound[OF False] by (simp add: e_def)
  then have N: "\<bar>N\<bar> \<le> 2 ^ 53" unfolding N_def by (rule round_half_even_abs_le)
  show ?thesis
  proof (cases "\<bar>N\<bar> < 2 ^ 53")
    case True
    from fl64_fixed[OF True e] b show ?thesis by (simp add: r)
  next
    case False
    with N have "\<bar>N\<bar> = 2 ^ 53" by simp
    then consider "N = 2 ^ 53" | "N = - (2 ^ 53)" by linarith
    then have "\<exists>h. \<bar>h\<bar> < 2 ^ 53 \<and> r = of_int h * pow2 (e + 1)"
    proof cases
      case 1
      have "r = of_int (2 ^ 52) * pow2 (e + 1)"
        using pow2_nat[of 1] by (simp add: r 1 pow2_add)
      then show ?thesis by (intro exI[of _ "2 ^ 52"]) simp
    next
      case 2
      have "r = of_int (- (2 ^ 52)) * pow2 (e + 1)"
        using pow2_nat[of 1] by (simp add: r 2 pow2_add)
      then show ?thesis by (intro exI[of _ "- (2 ^ 52)"]) simp
    qed
    then obtain h where h: "\<bar>h\<bar> < 2 ^ 53" "r = of_int h * pow2 (e + 1)" by blast
    have e1: "- 1074 \<le> e + 1" using e by simp
    from fl64_fixed[OF h(1) e1] b h(2) show ?thesis by simp
  qed
qed

lemma small_lt_huge: "\<bar>x\<bar> < 2 ^ 53 \<Longrightarrow> \<bar>x\<bar> < huge"
proof -
  assume "\<bar>x\<bar> < 2 ^ 53"
  moreover have "(2::real) ^ 53 \<le> 2 ^ 1024" by (rule power_increasing) simp_all
  ultimately show ?thesis by (simp add: huge_def)
qed

lemma fl64_of_int:
  assumes "\<bar>n\<bar> < 2 ^ 53"
  shows "fl64 (of_int n) = Fin (of_int n)"
proof -
  have "\<bar>real_of_int n\<bar> < 2 ^ 53"
    using assms by (metis of_int_abs of_int_less_numeral_power_cancel_iff)
  then have "\<bar>real_of_int n * pow2 0\<bar> < huge"
    using small_lt_huge by simp
  from fl64_fixed[OF assms _ this] show ?thesis by simp
qed

lemma fl64_dyadic:
  assumes "\<bar>n\<bar> < 2 ^ 53" "k \<le> 1074"
  shows "fl64 (of_int n / 2 ^ k) = Fin (of_int n / 2 ^ k)"
proof -
  have a: "\<bar>real_of_int n\<bar> < 2 ^ 53"
    using assms by (metis of_int_abs of_int_less_numeral_power_cancel_iff)
  have "\<bar>real_of_int n\<bar> / 2 ^ k \<le> \<bar>real_of_int n\<bar> / 1"
    by (rule divide_left_mono) simp_all
  then have "\<bar>real_of_int n / 2 ^ k\<bar> < 2 ^ 53" using a by (simp add: abs_divide)
  then have "\<bar>real_of_int n / 2 ^ k\<bar> < huge" by (rule small_lt_huge)
  then have "\<bar>real_of_int n * pow2 (- int k)\<bar> < huge"
    by (simp add: pow2_neg_nat)
  from fl64_fixed[OF assms(1) _ this] assms(2) show ?thesis by (simp add: pow2_neg_nat)
qed

lemma fl64_one [simp]: "fl64 1 = Fin 1"
  using fl64_of_int[of 1] by simp

lemma fl64_numeral [simp]:
  "numeral w < (2::int) ^ 53 \<Longrightarrow> fl64 (numeral w) = Fin (numeral w)"
  using fl64_of_int[of "numeral w"] by simp

lemma fl64_half [simp]: "fl64 (1 / 2) = Fin (1 / 2)"
  using fl64_dyadic[of 1 1] by simp

lemma fl64_numeral_half [simp]:
  "numeral w < (2::int) ^ 53 \<Longrightarrow> fl64 (numeral w / 2) = Fin (numeral w / 2)"
  using fl64_dyadic[of "numeral w" 1] by simp

lemma pow2_nonneg [simp]: "0 \<le> pow2 e"
  using pow2_pos[of e] by linarith

lemma is_float64_fl64 [simp]: "is_float64 (fl64 x)"
  by (cases "fl64 x") (auto simp: is_float64_def dest: fl64_idem)

lemma is_float64_simps [simp]:
  "is_float64 NaN" "is_float64 PInf" "is_float64 NInf" "is_float64 (Fin 0)" "is_float64 (Fin 1)"
  by (simp_all add: is_float64_def)

lemma is_float64_mul [simp]: "is_float64 (ieee_mul a b)"
  by (simp add: ieee_mul_def)

lemma is_float64_square [simp]: "is_float64 (square a)"
  by (simp add: square_def)

lemma is_float64_nan_to_zero [simp]: "is_float64 a \<Longrightarrow> is_float64 (nan_to_zero a)"
  by (cases a) auto

lemma mul_one: "is_float64 s \<Longrightarrow> ieee_mul (Fin 1) s = s"
  by (cases s) (auto simp: ieee_mul_def is_float64_def)

lemma mul_zero: "ieee_mul (Fin 0) s = (if isfinite s then Fin 0 else NaN)"
  by (cases s) (auto simp: ieee_mul_def)

lemma add_zero_left: "is_float64 s \<Longrightarrow> ieee_add (Fin 0) s = s"
  by (cases s) (auto simp: ieee_add_def is_float64_def)

lemma add_zero_right: "is_float64 s \<Longrightarrow> ieee_add s (Fin 0) = s"
  by (cases s) (auto simp: ieee_add_def is_float64_def)

lemma isnan_mul_one: "isnan (ieee_mul (Fin 1) s) \<longleftrightarrow> isnan s"
  by (cases s) (auto simp: ieee_mul_def)

lemma isnan_square [simp]: "isnan (square a) \<longleftrightarrow> isnan a"
  by (cases a) (auto simp: square_def ieee_mul_def)

lemma isnan_iff: "isnan a \<longleftrightarrow> a = NaN"
  by (cases a) auto

lemma mul_NaN [simp]: "ieee_mul NaN w = NaN" "ieee_mul a NaN = NaN"
  by (simp_all add: ieee_mul_def)

lemma foldl_add_zeros:
  "is_float64 a \<Longrightarrow> foldl ieee_add a (replicate n (Fin 0)) = a"
  by (induction n) (simp_all add: add_zero_right)

text \<open>Rounding a number that is not larger than a float64 number does not overflow.\<close>

lemma quantum_mono:
  assumes "x \<noteq> 0" "\<bar>x\<bar> \<le> \<bar>s\<bar>"
  shows "quantum x \<le> quantum s"
proof -
  have "log 2 \<bar>x\<bar> \<le> log 2 \<bar>s\<bar>" using assms by simp
  then have "\<lfloor>log 2 \<bar>x\<bar>\<rfloor> \<le> \<lfloor>log 2 \<bar>s\<bar>\<rfloor>" by (rule floor_mono)
  then show ?thesis by (simp add: quantum_def)
qed

lemma huge_pow2: "huge = pow2 1024"
  using pow2_nat[of 1024] by (simp add: huge_def)

lemma quantum_le_971:
  assumes "s \<noteq> 0" "\<bar>s\<bar> < huge"
  shows "quantum s \<le> 971"
proof -
  have "log 2 \<bar>s\<bar> < of_int 1024"
    using assms log_less_pow2[OF assms(1), of 1024] by (simp add: huge_pow2)
  then have "\<lfloor>log 2 \<bar>s\<bar>\<rfloor> < 1024" by (simp only: floor_less_iff)
  then show ?thesis by (simp add: quantum_def)
qed

lemma abs_nearest: "\<bar>nearest x\<bar> = of_int \<bar>round_half_even (x / pow2 (quantum x))\<bar> * pow2 (quantum x)"
  by (simp add: nearest_def abs_mult)

lemma fl64_finite_le:
  assumes s: "fl64 s = Fin s" and le: "\<bar>x\<bar> \<le> \<bar>s\<bar>"
  shows "isfinite (fl64 x)"
proof (cases "x = 0")
  case True
  then show ?thesis by simp
next
  case False
  then have s0: "s \<noteq> 0" using le by auto
  from fl64_Fin[OF s s0] have sn: "s = nearest s" and sh: "\<bar>s\<bar> < huge" by blast+
  define Nx where "Nx = round_half_even (x / pow2 (quantum x))"
  define Ns where "Ns = round_half_even (s / pow2 (quantum s))"
  have qs: "quantum s \<le> 971" by (rule quantum_le_971[OF s0 sh])
  have qx: "quantum x \<le> quantum s" by (rule quantum_mono[OF False le])
  have nx: "\<bar>nearest x\<bar> = of_int \<bar>Nx\<bar> * pow2 (quantum x)"
    by (simp add: abs_nearest Nx_def)
  have "\<bar>x / pow2 (quantum x)\<bar> \<le> of_int (2 ^ 53)"
    using scaled_bound[OF False] by simp
  then have Nx: "\<bar>Nx\<bar> \<le> 2 ^ 53" unfolding Nx_def by (rule round_half_even_abs_le)
  have "\<bar>nearest x\<bar> < huge"
  proof (cases "quantum x \<le> 970")
    case True
    have "of_int \<bar>Nx\<bar> * pow2 (quantum x) \<le> 2 ^ 53 * pow2 970"
    proof (rule mult_mono)
      show "real_of_int \<bar>Nx\<bar> \<le> 2 ^ 53" using Nx by (metis of_int_le_numeral_power_cancel_iff)
      show "pow2 (quantum x) \<le> pow2 970" using True by (rule pow2_mono)
    qed (simp_all add: less_imp_le)
    also have "\<dots> = pow2 1023" using pow2_nat[of 53] pow2_add[of 53 970] by simp
    also have "\<dots> < huge" unfolding huge_pow2 pow2_def by simp
    finally show ?thesis unfolding nx .
  next
    case False
    then have qx': "quantum x = quantum s" using qx qs by simp
    have sabs: "\<bar>s\<bar> = of_int \<bar>Ns\<bar> * pow2 (quantum s)"
      using arg_cong[OF sn, of abs] unfolding abs_nearest Ns_def .
    then have as: "\<bar>s\<bar> / pow2 (quantum s) = of_int \<bar>Ns\<bar>" by simp
    have "\<bar>x / pow2 (quantum x)\<bar> = \<bar>x\<bar> / pow2 (quantum s)" by (simp add: qx' abs_divide)
    also have "\<dots> \<le> \<bar>s\<bar> / pow2 (quantum s)" by (rule divide_right_mono[OF le]) (simp add: less_imp_le)
    finally have "\<bar>x / pow2 (quantum x)\<bar> \<le> of_int \<bar>Ns\<bar>" unfolding as .
    then have "\<bar>Nx\<bar> \<le> \<bar>Ns\<bar>" unfolding Nx_def by (rule round_half_even_abs_le)
    then have "of_int \<bar>Nx\<bar> * pow2 (quantum x) \<le> of_int \<bar>Ns\<bar> * pow2 (quantum s)"
      unfolding qx' by (simp add: mult_right_mono)
    also have "\<dots> = \<bar>s\<bar>" using sabs by simp
    finally show ?thesis using sh unfolding nx by simp
  qed
  then show ?thesis using False by (simp add: fl64_def)
qed

lemma div_finite:
  assumes "is_float64 (Fin s)" "0 < n"
  shows "isfinite (ieee_div (Fin s) n)"
proof -
  have "\<bar>s / real n\<bar> \<le> \<bar>s\<bar> / 1"
    unfolding abs_divide using assms(2) by (intro divide_left_mono) simp_all
  then have "\<bar>s / real n\<bar> \<le> \<bar>s\<bar>" by simp
  from fl64_finite_le[OF _ this] assms show ?thesis
    by (simp add: ieee_div_def is_float64_def)
qed

section \<open>Properties of the numpy operations\<close>

lemma mapM_err_map:
  "(\<And>x. x \<in> set xs \<Longrightarrow> f x = Inr (g x)) \<Longrightarrow> mapM_err f xs = Inr (map g xs)"
  by (induction xs) auto





text \<open>The scan, started after the prefix \<open>pre\<close> with the running maximum at \<open>m\<close>.\<close>

lemma argmax_scan_bound:
  "m < i \<Longrightarrow> argmax_scan mp m i xs < i + length xs"
proof (induction xs arbitrary: mp m i)
  case Nil
  then show ?case by simp
next
  case (Cons x xs)
  have a: "argmax_scan x i (Suc i) xs < Suc i + length xs"
    by (rule Cons.IH) simp
  have b: "argmax_scan mp m (Suc i) xs < Suc i + length xs"
    by (rule Cons.IH) (use Cons.prems in simp)
  from a b show ?case by simp
qed

lemma argmax_scan_nan:
  assumes "length pre = i" "m < i" "\<forall>j<i. \<not> isnan (pre ! j)" "\<exists>x\<in>set xs. isnan x"
  shows "isnan ((pre @ xs) ! argmax_scan mp m i xs) \<and>
         (\<forall>j<argmax_scan mp m i xs. \<not> isnan ((pre @ xs) ! j))"
  using assms
proof (induction xs arbitrary: pre mp m i)
  case Nil
  then show ?case by simp
next
  case (Cons x xs)
  show ?case
  proof (cases "isnan x")
    case True
    then have "\<not> fle x mp" by (cases x) auto
    with True Cons.prems show ?thesis
      by (auto simp: nth_append)
  next
    case False
    have pre': "length (pre @ [x]) = Suc i" using Cons.prems by simp
    have nn: "\<forall>j<Suc i. \<not> isnan ((pre @ [x]) ! j)"
      using Cons.prems False by (auto simp: nth_append less_Suc_eq)
    have ex: "\<exists>y\<in>set xs. isnan y" using Cons.prems False by auto
    have a: "isnan (((pre @ [x]) @ xs) ! argmax_scan x i (Suc i) xs) \<and>
         (\<forall>j<argmax_scan x i (Suc i) xs. \<not> isnan (((pre @ [x]) @ xs) ! j))"
      by (rule Cons.IH[OF pre' _ nn ex]) simp
    have b: "isnan (((pre @ [x]) @ xs) ! argmax_scan mp m (Suc i) xs) \<and>
         (\<forall>j<argmax_scan mp m (Suc i) xs. \<not> isnan (((pre @ [x]) @ xs) ! j))"
      by (rule Cons.IH[OF pre' _ nn ex]) (use Cons.prems in simp)
    from a b False show ?thesis by simp
  qed
qed


lemma argmax_total:
  assumes "xs \<noteq> []"
  shows "\<exists>i<length xs. argmax xs = Inr i"
proof -
  obtain x rest where Cons: "xs = x # rest"
    using assms by (cases xs) auto
  have "argmax_scan x 0 1 rest < 1 + length rest"
    by (rule argmax_scan_bound) simp
  with Cons show ?thesis by (simp add: argmax_def)
qed

lemma argmax_first_nan:
  assumes "\<exists>x\<in>set xs. isnan x" "argmax xs = Inr i"
  shows "isnan (xs ! i) \<and> (\<forall>j<i. \<not> isnan (xs ! j))"
proof (cases xs)
  case Nil
  with assms show ?thesis by simp
next
  case (Cons x rest)
  show ?thesis
  proof (cases "isnan x")
    case True
    with Cons assms show ?thesis by (simp add: argmax_def)
  next
    case False
    have ex: "\<exists>y\<in>set rest. isnan y" using assms Cons False by auto
    have "isnan (([x] @ rest) ! argmax_scan x 0 1 rest) \<and>
         (\<forall>j<argmax_scan x 0 1 rest. \<not> isnan (([x] @ rest) ! j))"
      by (rule argmax_scan_nan[OF _ _ _ ex]) (use False in auto)
    with Cons assms False show ?thesis by (simp add: argmax_def)
  qed
qed


lemma fill_hot_char:
  "\<forall>l\<in>set ls. l < k \<Longrightarrow> i + length ls \<le> length t \<Longrightarrow>
   fill_hot k i ls t =
     Inr (take i t @ map2 (\<lambda>r l. r[l := Fin 1]) (take (length ls) (drop i t)) ls
          @ drop (i + length ls) t)"
proof (induction ls arbitrary: i t)
  case Nil
  then show ?case by simp
next
  case (Cons l ls)
  let ?t = "t[i := (t ! i)[l := Fin 1]]"
  have i: "i < length t" using Cons.prems by simp
  have "fill_hot k (Suc i) ls ?t =
     Inr (take (Suc i) ?t @ map2 (\<lambda>r l. r[l := Fin 1]) (take (length ls) (drop (Suc i) ?t)) ls
          @ drop (Suc i + length ls) ?t)"
    by (rule Cons.IH) (use Cons.prems in auto)
  moreover have "take (Suc i) ?t = take i t @ [(t ! i)[l := Fin 1]]"
    using i by (simp add: take_Suc_conv_app_nth)
  moreover have "drop i t = t ! i # drop (Suc i) t"
    using i by (simp add: Cons_nth_drop_Suc)
  ultimately show ?case using Cons.prems by simp
qed

lemma fill_hot_zeros:
  assumes "\<forall>l\<in>set ls. l < k"
  shows "fill_hot k 0 ls (zeros (length ls) k) = Inr (map (one_hot k) ls)"
proof -
  have "map2 (\<lambda>r l. r[l := Fin 1]) (replicate (length ls) (replicate k (Fin 0))) ls
        = map (one_hot k) ls"
    by (rule nth_equalityI) (auto simp: one_hot_def)
  then show ?thesis
    using fill_hot_char[OF assms, of 0 "zeros (length ls) k"] by (simp add: zeros_def)
qed

lemma fill_hot_IndexError:
  "\<exists>l\<in>set ls. \<not> l < k \<Longrightarrow> fill_hot k i ls t = Inl IndexError"
  by (induction ls arbitrary: i t) auto

lemma bmul1_single: "bmul1 [m] c = Inr (map (ieee_mul m) c)"
  by (cases c) (auto simp: bmul1_def broadcast_def)

lemma bmul2_expand:
  assumes "length tr = length dr"
  shows "bmul2 (map (\<lambda>x. [x]) tr) dr = Inr (map2 (\<lambda>m c. map (ieee_mul m) c) tr dr)"
proof -
  have "mapM_err (\<lambda>(x, y). bmul1 x y) (zip (map (\<lambda>x. [x]) tr) dr)
        = Inr (map (\<lambda>(x, y). map (ieee_mul (hd x)) y) (zip (map (\<lambda>x. [x]) tr) dr))"
    by (rule mapM_err_map) (auto simp: bmul1_single zip_map1)
  also have "map (\<lambda>(x, y). map (ieee_mul (hd x)) y) (zip (map (\<lambda>x. [x]) tr) dr)
        = map2 (\<lambda>m c. map (ieee_mul m) c) tr dr"
    by (simp add: zip_map1 case_prod_unfold)
  finally show ?thesis using assms by (simp add: bmul2_def broadcast_def)
qed

lemma bmul3_expand:
  assumes "length t = length sq" "\<forall>n<length t. length (t ! n) = length (sq ! n)"
  shows "bmul3 (expand_dims2 t) sq =
         Inr (map2 (\<lambda>tr dr. map2 (\<lambda>m c. map (ieee_mul m) c) tr dr) t sq)"
proof -
  have "mapM_err (\<lambda>(x, y). bmul2 x y) (zip (expand_dims2 t) sq)
        = Inr (map (\<lambda>(x, y). map2 (\<lambda>m c. map (ieee_mul m) c) (map hd x) y) (zip (expand_dims2 t) sq))"
  proof (rule mapM_err_map)
    fix p assume "p \<in> set (zip (expand_dims2 t) sq)"
    then obtain n where n: "n < length t" "p = (map (\<lambda>x. [x]) (t ! n), sq ! n)"
      using assms by (auto simp: set_zip expand_dims2_def)
    have "map hd (map (\<lambda>x. [x]) (t ! n)) = t ! n" by (simp add: comp_def)
    with n assms show "(case p of (x, y) \<Rightarrow> bmul2 x y) =
        Inr (case p of (x, y) \<Rightarrow> map2 (\<lambda>m c. map (ieee_mul m) c) (map hd x) y)"
      by (simp add: bmul2_expand)
  qed
  also have "map (\<lambda>(x, y). map2 (\<lambda>m c. map (ieee_mul m) c) (map hd x) y) (zip (expand_dims2 t) sq)
        = map2 (\<lambda>tr dr. map2 (\<lambda>m c. map (ieee_mul m) c) tr dr) t sq"
    by (simp add: expand_dims2_def zip_map1 case_prod_unfold comp_def)
  finally show ?thesis using assms by (simp add: bmul3_def broadcast_def expand_dims2_def)
qed

lemma rect3_nth:
  "rect3 n k d a \<Longrightarrow> i < n \<Longrightarrow> length (a ! i) = k \<and> (\<forall>j<k. length (a ! i ! j) = d)"
  by (auto simp: rect3_def list_all_length)

lemma rect3_length: "rect3 n k d a \<Longrightarrow> length a = n"
  by (simp add: rect3_def)

lemma shape1_rect3: "rect3 n k d a \<Longrightarrow> 0 < n \<Longrightarrow> shape1 a = k"
  by (cases a) (auto simp: rect3_def shape1_def)

lemma shape2_rect3: "rect3 n k d a \<Longrightarrow> 0 < n \<Longrightarrow> 0 < k \<Longrightarrow> shape2 a = d"
  by (cases a; cases "hd a") (auto simp: rect3_def shape2_def)

lemma one_hot_nth: "j < k \<Longrightarrow> one_hot k l ! j = (if j = l then Fin 1 else Fin 0)"
  by (simp add: one_hot_def)

lemma length_one_hot: "length (one_hot k l) = k"
  by (simp add: one_hot_def)

text \<open>The mask of lines 56 to 59, for labels in range.\<close>

lemma t_hot_arr_char:
  assumes "rect3 n k d delta" "length ls = n" "\<forall>l\<in>set ls. l < k"
  shows "t_hot_arr ls delta = Inr (expand_dims2 (map (one_hot k) ls))"
proof (cases "n = 0")
  case True
  with assms show ?thesis by (simp add: t_hot_arr_def shape0_def zeros_def expand_dims2_def)
next
  case False
  then have "shape1 delta = k" using shape1_rect3[OF assms(1)] by simp
  then show ?thesis
    using fill_hot_zeros[OF assms(3)] by (simp add: t_hot_arr_def shape0_def)
qed

lemma delta_kmeans_arr_char:
  assumes "rect3 n k d delta" "length ls = n" "\<forall>l\<in>set ls. l < k"
  shows "delta_kmeans_arr ls delta = Inr (masked k ls delta)"
proof -
  have len: "length (map (one_hot k) ls) = length (square3 delta)"
    using assms by (simp add: square3_def rect3_def)
  have rows: "\<forall>i<length (map (one_hot k) ls).
      length (map (one_hot k) ls ! i) = length (square3 delta ! i)"
    using assms rect3_nth[OF assms(1)] rect3_length[OF assms(1)]
    by (simp add: square3_def length_one_hot)
  have "map2 (\<lambda>tr dr. map2 (\<lambda>m c. map (ieee_mul m) c) tr dr) (map (one_hot k) ls) (square3 delta)
        = masked k ls delta"
    by (simp add: masked_def square3_def zip_map1 zip_map2 case_prod_unfold comp_def)
  then show ?thesis
    using bmul3_expand[OF len rows] t_hot_arr_char[OF assms]
    by (simp add: delta_kmeans_arr_def)
qed

lemma masked_nth:
  assumes "rect3 n k d delta" "length ls = n" "i < n" "j < k" "e < d"
  shows "masked k ls delta ! i ! j ! e =
         ieee_mul (if j = ls ! i then Fin 1 else Fin 0) (square (delta ! i ! j ! e))"
  using assms rect3_nth[OF assms(1) assms(3)]
  by (simp add: masked_def rect3_def length_one_hot one_hot_nth)

lemma rect3_masked:
  assumes "rect3 n k d delta" "length ls = n"
  shows "rect3 n k d (masked k ls delta)"
  using assms
  by (auto simp: masked_def rect3_def list_all_length length_one_hot)

lemma masked_column:
  assumes "rect3 n k d delta" "length ls = n" "i < n" "e < d"
  shows "map (\<lambda>c. c ! e) (masked k ls delta ! i) = masked_slice k (ls ! i) (delta ! i) e"
proof (rule nth_equalityI)
  show "length (map (\<lambda>c. c ! e) (masked k ls delta ! i)) =
        length (masked_slice k (ls ! i) (delta ! i) e)"
    using rect3_nth[OF rect3_masked[OF assms(1,2)] assms(3)] by (simp add: masked_slice_def)
next
  fix j assume "j < length (map (\<lambda>c. c ! e) (masked k ls delta ! i))"
  then have j: "j < k"
    using rect3_nth[OF rect3_masked[OF assms(1,2)] assms(3)] by simp
  then show "map (\<lambda>c. c ! e) (masked k ls delta ! i) ! j =
             masked_slice k (ls ! i) (delta ! i) e ! j"
    using rect3_nth[OF rect3_masked[OF assms(1,2)] assms(3)] masked_nth[OF assms(1,2,3) j assms(4)]
    by (simp add: masked_slice_def)
qed

lemma scale_nanmean_masked:
  assumes "rect3 n k d delta" "length ls = n" "0 < k"
  shows "scale (nanmean_axis1 (masked k ls delta)) w = encoder_delta w k d ls delta"
proof (cases "n = 0")
  case True
  with assms show ?thesis
    by (simp add: masked_def scale_def nanmean_axis1_def encoder_delta_def)
next
  case False
  have r: "rect3 n k d (masked k ls delta)" by (rule rect3_masked[OF assms(1,2)])
  have s: "shape2 (masked k ls delta) = d"
    using shape2_rect3[OF r] False assms by simp
  show ?thesis
  proof (rule nth_equalityI)
    show "length (scale (nanmean_axis1 (masked k ls delta)) w) =
          length (encoder_delta w k d ls delta)"
      using rect3_length[OF r] assms
      by (simp add: scale_def nanmean_axis1_def encoder_delta_def)
  next
    fix i assume "i < length (scale (nanmean_axis1 (masked k ls delta)) w)"
    then have i: "i < n"
      using rect3_length[OF r] by (simp add: scale_def nanmean_axis1_def)
    have "map (\<lambda>e. ieee_mul (nanmean (map (\<lambda>c. c ! e) (masked k ls delta ! i))) w) [0..<d]
        = map (\<lambda>e. ieee_mul (nanmean (masked_slice k (ls ! i) (delta ! i) e)) w) [0..<d]"
      using masked_column[OF assms(1,2) i] by simp
    then show "scale (nanmean_axis1 (masked k ls delta)) w ! i =
               encoder_delta w k d ls delta ! i"
      using i s rect3_length[OF r] assms
      by (simp add: scale_def nanmean_axis1_def encoder_delta_def comp_def)
  qed
qed

lemma loss_char:
  assumes "rect3 n k d delta" "0 < k" "assign_label q = Inr ls" "length ls = n"
    "\<forall>l\<in>set ls. l < k"
  shows "compute_clustering_loss self ob re fe delta q p =
         Inr (encoder_delta (weight self) k d ls delta, None, None)"
  using delta_kmeans_arr_char[OF assms(1,4,5)] scale_nanmean_masked[OF assms(1,4,2)] assms(3)
  by (simp add: compute_clustering_loss_def)

lemma reshape_cell_single: "length c = 1 \<Longrightarrow> reshape_cell c = Inr (c ! 0)"
  by (cases c) (auto simp: reshape_cell_def split: list.splits)

lemma collapse_q_char:
  assumes "rect3 n k m q" "0 < k" "0 < m"
  shows "collapse_q q = Inr (map (map (collapse_cell m)) q)"
proof (cases "n = 0")
  case True
  with assms show ?thesis by (simp add: collapse_q_def rect3_def shape2_def)
next
  case False
  then have s: "shape2 q = m" using shape2_rect3[OF assms(1)] assms(2) by simp
  show ?thesis
  proof (cases "1 < m")
    case True
    with s show ?thesis by (simp add: collapse_q_def nanmean_axis2_def collapse_cell_def)
  next
    case False
    then have m: "m = 1" using assms by simp
    have "mapM_err (mapM_err reshape_cell) q = Inr (map (map (\<lambda>c. c ! 0)) q)"
    proof (rule mapM_err_map)
      fix r assume "r \<in> set q"
      then have "\<forall>c\<in>set r. length c = 1"
        using assms(1) m by (auto simp: rect3_def list_all_iff)
      then show "mapM_err reshape_cell r = Inr (map (\<lambda>c. c ! 0) r)"
        by (intro mapM_err_map) (simp add: reshape_cell_single)
    qed
    with s m show ?thesis by (simp add: collapse_q_def collapse_cell_def)
  qed
qed

lemma argmax_index: "xs \<noteq> [] \<Longrightarrow> argmax xs = Inr (argmax_index xs) \<and> argmax_index xs < length xs"
  using argmax_total[of xs] by (auto simp: argmax_index_def)

lemma assign_label_char:
  assumes "rect3 n k m q" "0 < k" "0 < m"
  shows "assign_label q = Inr (map (\<lambda>r. argmax_index (map (collapse_cell m) r)) q)"
proof -
  have "mapM_err argmax (map (map (collapse_cell m)) q)
        = Inr (map argmax_index (map (map (collapse_cell m)) q))"
  proof (rule mapM_err_map)
    fix r assume "r \<in> set (map (map (collapse_cell m)) q)"
    then have "r \<noteq> []" using assms by (auto simp: rect3_def list_all_iff)
    then show "argmax r = Inr (argmax_index r)" by (simp add: argmax_index)
  qed
  then show ?thesis
    using collapse_q_char[OF assms] by (simp add: assign_label_def comp_def)
qed

lemma assign_label_in_range:
  assumes "rect3 n k m q" "0 < k" "0 < m" "assign_label q = Inr ls"
  shows "length ls = n \<and> (\<forall>l\<in>set ls. l < k)"
proof -
  have ls: "ls = map (\<lambda>r. argmax_index (map (collapse_cell m) r)) q"
    using assign_label_char[OF assms(1,2,3)] assms(4) by simp
  have "\<And>r. r \<in> set q \<Longrightarrow> argmax_index (map (collapse_cell m) r) < k"
  proof -
    fix r assume r: "r \<in> set q"
    then have "length r = k" using assms(1) by (auto simp: rect3_def list_all_iff)
    then show "argmax_index (map (collapse_cell m) r) < k"
      using argmax_index[of "map (collapse_cell m) r"] assms(2) by auto
  qed
  with ls assms(1) show ?thesis by (auto simp: rect3_def)
qed

section \<open>The mean of a masked slice\<close>


lemma fsum_zeros: "fsum (replicate n (Fin 0)) = Fin 0"
  by (simp add: fsum_def foldl_add_zeros)

text \<open>A slice of zeros and one float64 entry sums to that entry.\<close>

lemma fsum_single:
  assumes "l < k" "is_float64 s"
  shows "fsum ((replicate k (Fin 0))[l := s]) = s"
proof -
  have "(replicate k (Fin 0))[l := s] = replicate l (Fin 0) @ s # replicate (k - Suc l) (Fin 0)"
    using assms(1) by (simp add: upd_conv_take_nth_drop min_def)
  then show ?thesis
    using assms(2) by (simp add: fsum_def foldl_add_zeros add_zero_left)
qed

lemma nanmean_all_nan:
  assumes "\<forall>x\<in>set xs. isnan x"
  shows "nanmean xs = NaN"
proof -
  have z: "map nan_to_zero xs = replicate (length xs) (Fin 0)"
    using assms by (induction xs) (auto simp: isnan_iff)
  have c: "filter (\<lambda>x. \<not> isnan x) xs = []"
    using assms by (simp add: filter_empty_conv)
  show ?thesis
    by (simp add: nanmean_def z c fsum_zeros ieee_div_def)
qed

text \<open>
  The entries of a masked slice: the square at the label; elsewhere 0 when the square is a
  number, and NaN when it is not.
\<close>

lemma masked_slice_nth:
  assumes "j < k"
  shows "masked_slice k l row e ! j =
     (if j = l then square (row ! l ! e)
      else if isfinite (square (row ! j ! e)) then Fin 0 else NaN)"
  using assms by (simp add: masked_slice_def mul_one mul_zero)

lemma length_masked_slice: "length (masked_slice k l row e) = k"
  by (simp add: masked_slice_def)

lemma masked_slice_zeroed:
  assumes "l < k"
  shows "map nan_to_zero (masked_slice k l row e)
       = (replicate k (Fin 0))[l := nan_to_zero (square (row ! l ! e))]"
proof (rule nth_equalityI)
  show "length (map nan_to_zero (masked_slice k l row e))
      = length ((replicate k (Fin 0))[l := nan_to_zero (square (row ! l ! e))])"
    by (simp add: length_masked_slice)
next
  fix j assume "j < length (map nan_to_zero (masked_slice k l row e))"
  then have j: "j < k" by (simp add: length_masked_slice)
  then show "map nan_to_zero (masked_slice k l row e) ! j
      = (replicate k (Fin 0))[l := nan_to_zero (square (row ! l ! e))] ! j"
    using assms by (simp add: length_masked_slice masked_slice_nth nth_list_update)
qed

lemma masked_slice_sum:
  assumes "l < k"
  shows "fsum (map nan_to_zero (masked_slice k l row e)) = nan_to_zero (square (row ! l ! e))"
  unfolding masked_slice_zeroed[OF assms] by (rule fsum_single[OF assms]) simp

lemma masked_slice_count:
  "length (filter (\<lambda>x. \<not> isnan x) (masked_slice k l row e))
   = length (filter (\<lambda>j. if j = l then \<not> isnan (row ! l ! e)
                           else isfinite (square (row ! j ! e))) [0..<k])"
proof -
  have "\<And>j. \<not> isnan (ieee_mul (if j = l then Fin 1 else Fin 0) (square (row ! j ! e)))
       \<longleftrightarrow> (if j = l then \<not> isnan (row ! l ! e) else isfinite (square (row ! j ! e)))"
    by (simp add: isnan_mul_one mul_zero)
  then show ?thesis
    by (simp add: masked_slice_def filter_map comp_def)
qed

lemma nanmean_masked_slice:
  assumes "l < k"
  shows "nanmean (masked_slice k l row e) =
     ieee_div (nan_to_zero (square (row ! l ! e)))
       (length (filter (\<lambda>j. if j = l then \<not> isnan (row ! l ! e)
                             else isfinite (square (row ! j ! e))) [0..<k]))"
  by (simp add: nanmean_def Let_def masked_slice_sum[OF assms] masked_slice_count)

text \<open>The count when the entry at the label is not NaN.\<close>

lemma count_assigned:
  assumes "l < k" "\<not> isnan (row ! l ! e)"
  shows "length (filter (\<lambda>j. if j = l then \<not> isnan (row ! l ! e)
                             else isfinite (square (row ! j ! e))) [0..<k])
           = k - nonfinite_others k l row e
       \<and> nonfinite_others k l row e < k"
proof -
  let ?P = "\<lambda>j. j \<noteq> l \<and> \<not> isfinite (square (row ! j ! e))"
  have a: "filter (\<lambda>j. if j = l then \<not> isnan (row ! l ! e)
                        else isfinite (square (row ! j ! e))) [0..<k]
         = filter (\<lambda>j. \<not> ?P j) [0..<k]"
    by (rule filter_cong) (use assms in auto)
  have "length (filter ?P [0..<k]) + length (filter (\<lambda>j. \<not> ?P j) [0..<k]) = length [0..<k]"
    by (rule sum_length_filter_compl)
  then have b: "length (filter (\<lambda>j. \<not> ?P j) [0..<k]) = k - nonfinite_others k l row e"
    by (simp add: nonfinite_others_def)
  have "length (filter ?P [0..<k]) < length [0..<k]"
    by (rule length_filter_less[of l]) (use assms in auto)
  then show ?thesis unfolding a b by (simp add: nonfinite_others_def)
qed

lemma nanmean_masked_assigned:
  assumes "l < k" "\<not> isnan (row ! l ! e)"
  shows "nanmean (masked_slice k l row e)
       = ieee_div (square (row ! l ! e)) (k - nonfinite_others k l row e)"
proof -
  have "\<not> isnan (square (row ! l ! e))" using assms(2) by simp
  then have "nan_to_zero (square (row ! l ! e)) = square (row ! l ! e)"
    by (cases "square (row ! l ! e)") auto
  then show ?thesis
    using count_assigned[OF assms] by (simp add: nanmean_masked_slice[OF assms(1)])
qed

text \<open>The mean when the entry at the label is NaN.\<close>

lemma nanmean_masked_nan:
  assumes "l < k" "isnan (row ! l ! e)"
  shows "nanmean (masked_slice k l row e) =
     (if \<exists>j<k. j \<noteq> l \<and> isfinite (square (row ! j ! e)) then Fin 0 else NaN)"
proof -
  let ?c = "length (filter (\<lambda>j. if j = l then \<not> isnan (row ! l ! e)
                             else isfinite (square (row ! j ! e))) [0..<k])"
  have s: "nan_to_zero (square (row ! l ! e)) = Fin 0"
    using assms(2) by (simp add: isnan_iff square_def)
  have c: "?c = 0 \<longleftrightarrow> \<not> (\<exists>j<k. j \<noteq> l \<and> isfinite (square (row ! j ! e)))"
    using assms(2) by (auto simp: filter_empty_conv)
  show ?thesis
  proof (cases "\<exists>j<k. j \<noteq> l \<and> isfinite (square (row ! j ! e))")
    case True
    then have "?c \<noteq> 0" using c by blast
    then have "ieee_div (Fin 0) ?c = Fin 0" by (simp add: ieee_div_def)
    then show ?thesis using True by (simp add: nanmean_masked_slice[OF assms(1)] s)
  next
    case False
    then have "?c = 0" using c by blast
    then have "ieee_div (Fin 0) ?c = NaN" by (simp add: ieee_div_def)
    then show ?thesis using False by (simp add: nanmean_masked_slice[OF assms(1)] s)
  qed
qed

text \<open>A NaN at another cluster is one of the entries whose square is not a number.\<close>

lemma length_filter_mono:
  "(\<And>x. P x \<Longrightarrow> Q x) \<Longrightarrow> length (filter P xs) \<le> length (filter Q xs)"
  by (induction xs) auto

lemma nan_others_le: "nan_others k l row e \<le> nonfinite_others k l row e"
  unfolding nan_others_def nonfinite_others_def
  by (rule length_filter_mono) (simp add: isnan_iff square_def)

lemma nan_others_eq:
  assumes "\<forall>j<k. j \<noteq> l \<and> \<not> isnan (row ! j ! e) \<longrightarrow> isfinite (square (row ! j ! e))"
  shows "nonfinite_others k l row e = nan_others k l row e"
proof -
  have "\<And>j. isnan (row ! j ! e) \<Longrightarrow> \<not> isfinite (square (row ! j ! e))"
    by (simp add: isnan_iff square_def)
  then have "filter (\<lambda>j. j \<noteq> l \<and> \<not> isfinite (square (row ! j ! e))) [0..<k]
      = filter (\<lambda>j. j \<noteq> l \<and> isnan (row ! j ! e)) [0..<k]"
    using assms by (intro filter_cong) auto
  then show ?thesis by (simp add: nan_others_def nonfinite_others_def)
qed

lemma encoder_delta_nth:
  "i < length ls \<Longrightarrow> e < d \<Longrightarrow>
   encoder_delta w k d ls delta ! i ! e
     = ieee_mul (nanmean (masked_slice k (ls ! i) (delta ! i) e)) w"
  by (simp add: encoder_delta_def)

text \<open>The product of two numbers is never NaN, and it is a number when one of them is at most 1.\<close>

lemma mul_finite_not_nan: "isfinite a \<Longrightarrow> \<not> isnan (ieee_mul a (Fin w))"
  by (cases a) (auto simp: ieee_mul_def)

lemma mul_small_finite:
  assumes "isfinite a" "is_float64 a" "\<bar>w\<bar> \<le> 1"
  shows "isfinite (ieee_mul a (Fin w))"
proof -
  obtain r where r: "a = Fin r" using assms(1) by (cases a) auto
  have "\<bar>r * w\<bar> \<le> \<bar>r\<bar> * 1"
    unfolding abs_mult using assms(3) by (intro mult_left_mono) simp_all
  then have "\<bar>r * w\<bar> \<le> \<bar>r\<bar>" by simp
  from fl64_finite_le[OF _ this] assms(2) show ?thesis
    by (simp add: r ieee_mul_def is_float64_def)
qed

lemma is_float64_div [simp]: "is_float64 a \<Longrightarrow> is_float64 (ieee_div a n)"
  by (cases a) (auto simp: ieee_div_def)

lemma div_square_finite:
  assumes "isfinite (square a)" "0 < n"
  shows "isfinite (ieee_div (square a) n)"
proof -
  obtain s where s: "square a = Fin s" using assms(1) by (cases "square a") auto
  have "is_float64 (Fin s)" using is_float64_square[of a] by (simp add: s)
  from div_finite[OF this assms(2)] show ?thesis by (simp add: s)
qed

text \<open>A square that is not a number is NaN or the positive infinity.\<close>

lemma square_PInf:
  assumes "\<not> isnan a" "\<not> isfinite (square a)"
  shows "square a = PInf"
proof (cases a)
  case (Fin x)
  have "0 \<le> x * x" by simp
  then show ?thesis
    using assms(2) unfolding Fin square_def ieee_mul_def fl64_def
    by (simp split: if_splits)
qed (use assms in \<open>simp_all add: square_def ieee_mul_def\<close>)

lemma one_hot_split:
  "l < k \<Longrightarrow> one_hot k l = replicate l (Fin 0) @ Fin 1 # replicate (k - Suc l) (Fin 0)"
  by (simp add: one_hot_def upd_conv_take_nth_drop min_def)

lemma one_hot_count: "l < k \<Longrightarrow> length (filter (\<lambda>c. c = [Fin 1]) (map (\<lambda>x. [x]) (one_hot k l))) = 1"
  by (simp add: one_hot_split filter_map comp_def)

lemma one_hot_sum: "l < k \<Longrightarrow> sum_list (map val (one_hot k l)) = 1"
  by (simp add: one_hot_split sum_list_replicate)

lemma sum_concat_one_hot:
  "\<forall>l\<in>set ls. l < k \<Longrightarrow>
   sum_list (map val (concat (concat (expand_dims2 (map (one_hot k) ls))))) = real (length ls)"
proof (induction ls)
  case Nil
  then show ?case by (simp add: expand_dims2_def)
next
  case (Cons l ls)
  have "concat (map (\<lambda>x. [x]) (one_hot k l)) = one_hot k l"
    by (induction "one_hot k l") (auto simp: concat_map_singleton)
  with Cons show ?case
    by (simp add: expand_dims2_def one_hot_sum)
qed

text \<open>The definitions to unfold when the method is run on a concrete input.\<close>

lemmas loss_eval =
  compute_clustering_loss_def assign_label_def collapse_q_def shape2_def
  reshape_cell_def argmax_def delta_kmeans_arr_def t_hot_arr_def shape0_def shape1_def
  zeros_def expand_dims2_def bmul3_def bmul2_def bmul1_def broadcast_def square3_def
  square_def nanmean_axis1_def nanmean_axis2_def nanmean_def fsum_def scale_def init_def
  ieee_mul_def ieee_add_def ieee_div_def

section \<open>Rounding with an unbounded exponent, overflow\<close>

lemma binary64_scale: "binary64 (2 powr of_int j * x) = 2 powr of_int j * binary64 x"
proof (cases "x = 0")
  case True
  then show ?thesis by (simp add: binary64_def)
next
  case False
  have "log 2 \<bar>2 powr of_int j * x\<bar> = of_int j + log 2 \<bar>x\<bar>"
    using False by (simp add: abs_mult log_mult)
  then have e: "\<lfloor>log 2 \<bar>2 powr of_int j * x\<bar>\<rfloor> - 52 = j + (\<lfloor>log 2 \<bar>x\<bar>\<rfloor> - 52)"
    by (simp add: add.commute)
  have p: "(2::real) powr of_int (j + (\<lfloor>log 2 \<bar>x\<bar>\<rfloor> - 52))
         = 2 powr of_int j * 2 powr of_int (\<lfloor>log 2 \<bar>x\<bar>\<rfloor> - 52)"
    by (simp add: powr_add)
  show ?thesis
    using False unfolding binary64_def e p by simp
qed

text \<open>The rounding of a positive number whose binary exponent is known.\<close>

lemma binary64_eval:
  assumes "0 < x" "2 powr of_int k \<le> x" "x < 2 powr of_int (k + 1)"
  shows "binary64 x = of_int (round_half_even (x / 2 powr of_int (k - 52))) * 2 powr of_int (k - 52)"
proof -
  have "\<lfloor>log 2 x\<rfloor> = k"
    using assms by (simp add: floor_log_eq_powr_iff)
  then show ?thesis using assms(1) by (simp add: binary64_def)
qed

lemma fmul64_scale:
  "fmul64 x (Fin (2 powr of_int j * w)) = fmul (Fin (2 powr of_int j)) (fmul64 x (Fin w))"
proof (cases x)
  case (Fin m)
  have "m * (2 powr of_int j * w) = 2 powr of_int j * (m * w)" by simp
  then have "binary64 (m * (2 powr of_int j * w)) = 2 powr of_int j * binary64 (m * w)"
    by (simp only: binary64_scale)
  then show ?thesis unfolding Fin by (simp only: fmul64.simps fmul.simps)
next
  case NaN
  then show ?thesis by simp
next
  case PInf
  have "sgn (2 powr real_of_int j * w) = sgn w" by (simp add: sgn_mult)
  then show ?thesis unfolding PInf by (cases "w = 0"; cases "0 < w") (simp_all add: sgn_mult)
next
  case NInf
  have "sgn (2 powr real_of_int j * w) = sgn w" by (simp add: sgn_mult)
  then show ?thesis unfolding NInf by (cases "w = 0"; cases "0 < w") (simp_all add: sgn_mult)
qed

lemma binary64_9_mean:
  "binary64 (4503599761588225 / 4503599627370496 * 9) = 5066549731786753 / 562949953421312"
  by (subst binary64_eval[of _ "3"]) (simp_all add: round_half_even_def powr_neg_numeral)

lemma binary64_3_mean:
  "binary64 (4503599761588225 / 4503599627370496 * 3) = 3377699821191169 / 1125899906842624"
  by (subst binary64_eval[of _ "1"]) (simp_all add: round_half_even_def powr_neg_numeral)

lemma binary64_3_delta:
  "binary64 (3 * (3377699821191169 / 1125899906842624)) = 2533274865893377 / 281474976710656"
  by (subst binary64_eval[of _ "3"]) (simp_all add: round_half_even_def powr_neg_numeral)

text \<open>
  Where the product neither overflows nor falls among the subnormal numbers, the rounding
  with an unbounded exponent is the rounding of float64.
\<close>

lemma fl64_binary64:
  assumes "pow2 (- 1022) \<le> \<bar>x\<bar>" "\<bar>binary64 x\<bar> < huge"
  shows "fl64 x = Fin (binary64 x)"
proof -
  have "0 < \<bar>x\<bar>" using assms(1) pow2_pos[of "- 1022"] by linarith
  then have x0: "x \<noteq> 0" by simp
  have "of_int (- 1022) \<le> log 2 \<bar>x\<bar>"
    using assms(1) x0 by (simp add: le_log_iff pow2_def)
  then have "- 1022 \<le> \<lfloor>log 2 \<bar>x\<bar>\<rfloor>" by (simp only: le_floor_iff)
  then have q: "quantum x = \<lfloor>log 2 \<bar>x\<bar>\<rfloor> - 52" by (simp add: quantum_def)
  have n: "nearest x = binary64 x"
    using x0 by (simp add: nearest_def binary64_def q pow2_def)
  show ?thesis using x0 assms(2) by (simp add: fl64_def n)
qed

text \<open>A real number of magnitude \<open>2\<^sup>1\<^sup>0\<^sup>2\<^sup>4\<close> or more rounds to an infinity.\<close>

lemma fl64_overflow:
  assumes "huge \<le> \<bar>x\<bar>"
  shows "fl64 x = (if 0 < x then PInf else NInf)"
proof -
  define L where "L = \<lfloor>log 2 \<bar>x\<bar>\<rfloor>"
  define q where "q = quantum x"
  have hp: "0 < huge" by (simp add: huge_def)
  have x0: "x \<noteq> 0" using assms hp by auto
  have "of_int 1024 \<le> log 2 \<bar>x\<bar>"
    using assms x0 by (simp add: le_log_iff huge_pow2 pow2_def)
  then have L: "1024 \<le> L" unfolding L_def by (simp only: le_floor_iff)
  then have q: "q = L - 52" by (simp add: q_def quantum_def L_def)
  have "of_int L \<le> log 2 \<bar>x\<bar>" unfolding L_def by simp
  then have lo: "pow2 L \<le> \<bar>x\<bar>" using x0 by (simp add: le_log_iff pow2_def)
  have pl: "pow2 L = 2 ^ 52 * pow2 q"
    using pow2_add[of 52 q] pow2_nat[of 52] by (simp add: q)
  have "2 ^ 52 * pow2 q / pow2 q \<le> \<bar>x\<bar> / pow2 q"
    using lo unfolding pl by (rule divide_right_mono) simp
  then have sc: "2 ^ 52 \<le> \<bar>x / pow2 q\<bar>" by (simp add: abs_divide)
  define N where "N = round_half_even (x / pow2 q)"
  have N: "2 ^ 52 \<le> \<bar>N\<bar>"
  proof (cases "0 < x")
    case True
    then have "of_int (2 ^ 52) \<le> x / pow2 q" using sc by (simp add: abs_divide)
    then have "2 ^ 52 \<le> N" unfolding N_def by (rule round_half_even_ge)
    then show ?thesis by simp
  next
    case False
    then have "x / pow2 q \<le> 0" by (simp add: divide_le_0_iff)
    then have "x / pow2 q \<le> of_int (- (2 ^ 52))" using sc by simp
    then have "N \<le> - (2 ^ 52)" unfolding N_def by (rule round_half_even_le)
    then show ?thesis by simp
  qed
  have "huge \<le> pow2 L" unfolding huge_pow2 using L by (rule pow2_mono)
  also have "\<dots> = 2 ^ 52 * pow2 q" by (rule pl)
  also have "\<dots> \<le> of_int \<bar>N\<bar> * pow2 q"
  proof (rule mult_right_mono)
    show "(2::real) ^ 52 \<le> of_int \<bar>N\<bar>" using N by (metis of_int_numeral_le_iff of_int_power_le_of_int_cancel_iff numeral_power_le_of_int_cancel_iff)
  qed simp
  also have "\<dots> = \<bar>nearest x\<bar>" by (simp add: abs_nearest N_def q_def)
  finally show ?thesis using x0 by (simp add: fl64_def)
qed

text \<open>The float64 numbers of the examples.\<close>

lemma fl64_mean_example [simp]:
  "fl64 (4503599761588225 / 4503599627370496) = Fin (4503599761588225 / 4503599627370496)"
  using fl64_dyadic[of 4503599761588225 52] by simp

lemma fl64_tie_example [simp]:
  "fl64 (1152921504606846977 / 1152921504606846976) = Fin 1"
proof -
  let ?x = "1152921504606846977 / 1152921504606846976 :: real"
  have b: "binary64 ?x = 1"
    by (subst binary64_eval[of _ "0"]) (simp_all add: round_half_even_def powr_neg_numeral)
  have "pow2 (- 1022) \<le> pow2 0" by (rule pow2_mono) simp
  then have "pow2 (- 1022) \<le> \<bar>?x\<bar>" by simp
  moreover have "\<bar>binary64 ?x\<bar> < huge" unfolding b by (simp add: huge_def)
  ultimately show ?thesis using b by (simp only: fl64_binary64)
qed

lemma is_float64_big: "is_float64 (Fin big)"
proof -
  have "pow2 700 < pow2 1024" by (simp add: pow2_def)
  then have "\<bar>of_int 1 * pow2 700\<bar> < huge" by (simp add: huge_pow2)
  from fl64_fixed[OF _ _ this] show ?thesis
    using pow2_nat[of 700] by (simp add: is_float64_def big_def)
qed

lemma big_square [simp]: "fl64 (big * big) = PInf"
proof -
  have "big * big = 2 ^ 1400" by (simp add: big_def flip: power_add)
  moreover have "(2::real) ^ 1024 \<le> 2 ^ 1400" by (rule power_increasing) simp_all
  ultimately have "huge \<le> big * big" by (simp only: huge_def)
  moreover have p: "0 < big * big" by (simp add: big_def)
  ultimately have "huge \<le> \<bar>big * big\<bar>" by linarith
  from fl64_overflow[OF this] p show ?thesis by simp
qed

section \<open>The claims\<close>

text \<open>
  C1. The end-to-end example: two samples, two clusters, one feature, weight 1,
  \<open>delta_arr = [[[1],[3]],[[2],[5]]]\<close> and \<open>q_arr = [[[0.9],[0.1]],[[0.2],[0.8]]]\<close>.
  The labels are \<open>[0, 1]\<close>, the mask is \<open>[[[1],[0]],[[0],[1]]]\<close>, the masked squared
  distances are \<open>[[[1],[0]],[[0],[25]]]\<close>, and the method returns the encoder delta
  \<open>[[0.5],[12.5]]\<close> (the masked zeros count in the denominator of the mean) together
  with \<open>None\<close> for the decoder and the centroids, whatever the observed, reconstructed
  and feature arrays and \<open>p_arr\<close> are.
\<close>

theorem end_to_end_example:
  "assign_label [[[Fin 0.9], [Fin 0.1]], [[Fin 0.2], [Fin 0.8]]] = Inr [0, 1] \<and>
   t_hot_arr [0, 1] [[[Fin 1], [Fin 3]], [[Fin 2], [Fin 5]]]
     = Inr [[[Fin 1], [Fin 0]], [[Fin 0], [Fin 1]]] \<and>
   delta_kmeans_arr [0, 1] [[[Fin 1], [Fin 3]], [[Fin 2], [Fin 5]]]
     = Inr [[[Fin 1], [Fin 0]], [[Fin 0], [Fin 25]]] \<and>
   compute_clustering_loss (init (Some (Fin 1))) observed_arr reconstructed_arr feature_arr
       [[[Fin 1], [Fin 3]], [[Fin 2], [Fin 5]]]
       [[[Fin 0.9], [Fin 0.1]], [[Fin 0.2], [Fin 0.8]]] p_arr
     = Inr ([[Fin 0.5], [Fin 12.5]], None, None)"
  by (simp add: loss_eval)

text \<open>
  C2 as the specification states it fails in its second half. One sample, two clusters:
  the label is 0, the entry of \<open>delta_arr\<close> at cluster 0 is NaN, the one at cluster 1
  is 3. The entry of the encoder delta is 0, not NaN.
\<close>

theorem nan_at_assigned_cluster_counterexample:
  "assign_label [[[Fin 0.9], [Fin 0.1]]] = Inr [0] \<and>
   isnan ([[[NaN], [Fin 3]]] ! 0 ! 0 ! 0) \<and> \<not> isnan ([[[NaN], [Fin 3]]] ! 0 ! 1 ! 0) \<and>
   compute_clustering_loss (init None) [[Fin 7]] [[Fin 7]] [[Fin 7]]
       [[[NaN], [Fin 3]]] [[[Fin 0.9], [Fin 0.1]]] [[Fin 0.9, Fin 0.1]]
     = Inr ([[Fin 0]], None, None)"
  by (simp add: loss_eval)

text \<open>
  C2, amended. For a weight \<open>w\<close> that is a number, more than one cluster, and every sample
  \<open>i\<close> and feature index \<open>e\<close>.
  When exactly one entry of \<open>delta_arr\<close> along the cluster axis is NaN, it belongs to a
  cluster other than the assigned one, and the square of the entry of the assigned cluster
  is a number (the entry is not an infinity and its square does not overflow), the entry
  of the encoder delta is not NaN; it is a number when \<open>\<bar>w\<bar> \<le> 1\<close>, and for a larger
  weight it is a number or, when the product with the weight overflows, an infinity.
  When the square of the entry of the assigned cluster is not a number, the mean is the
  positive infinity, and the entry of the encoder delta is the infinity of the sign of
  \<open>w\<close>, or NaN for \<open>w = 0\<close>.
  When the entry of the assigned cluster is NaN, the entry of the encoder delta is 0 if
  the square of the entry of some other cluster is a number, and NaN if there is no such
  cluster: the tolerant mean drops the NaN of the assigned cluster and averages the zeros
  that the mask leaves, and the mask leaves NaN, not 0, where the square is NaN or an
  infinity.
\<close>

theorem nan_propagation:
  assumes "rect3 n k d delta_arr" "rect3 n k m q_arr" "1 < k" "0 < m" "i < n" "e < d"
    "weight self = Fin w"
  shows "\<exists>ls enc. assign_label q_arr = Inr ls \<and>
      compute_clustering_loss self observed_arr reconstructed_arr feature_arr delta_arr q_arr p_arr
        = Inr (enc, None, None) \<and>
      ((\<exists>j<k. j \<noteq> ls ! i \<and> isnan (delta_arr ! i ! j ! e) \<and>
              (\<forall>j'<k. j' \<noteq> j \<longrightarrow> \<not> isnan (delta_arr ! i ! j' ! e))) \<and>
         isfinite (square (delta_arr ! i ! (ls ! i) ! e))
         \<longrightarrow> \<not> isnan (enc ! i ! e) \<and> (\<bar>w\<bar> \<le> 1 \<longrightarrow> isfinite (enc ! i ! e))) \<and>
      ((\<exists>j<k. j \<noteq> ls ! i \<and> isnan (delta_arr ! i ! j ! e) \<and>
              (\<forall>j'<k. j' \<noteq> j \<longrightarrow> \<not> isnan (delta_arr ! i ! j' ! e))) \<and>
         \<not> isfinite (square (delta_arr ! i ! (ls ! i) ! e))
         \<longrightarrow> enc ! i ! e = (if w = 0 then NaN else if 0 < w then PInf else NInf)) \<and>
      (isnan (delta_arr ! i ! (ls ! i) ! e)
         \<longrightarrow> enc ! i ! e =
               (if \<exists>j<k. j \<noteq> ls ! i \<and> isfinite (square (delta_arr ! i ! j ! e))
                then Fin 0 else NaN))"
proof -
  let ?ls = "map (\<lambda>r. argmax_index (map (collapse_cell m) r)) q_arr"
  let ?enc = "encoder_delta (weight self) k d ?ls delta_arr"
  let ?l = "?ls ! i"
  have k0: "0 < k" using assms(3) by simp
  have al: "assign_label q_arr = Inr ?ls" by (rule assign_label_char[OF assms(2) k0 assms(4)])
  from assign_label_in_range[OF assms(2) k0 assms(4) al]
  have len: "length ?ls = n" and rng: "\<forall>l\<in>set ?ls. l < k" by auto
  have l: "?l < k" using len rng assms(5) by (metis nth_mem)
  have cl: "compute_clustering_loss self observed_arr reconstructed_arr feature_arr
              delta_arr q_arr p_arr = Inr (?enc, None, None)"
    by (rule loss_char[OF assms(1) k0 al len rng])
  have en: "?enc ! i ! e = ieee_mul (nanmean (masked_slice k ?l (delta_arr ! i) e)) (Fin w)"
    using assms(5,6,7) len by (simp add: encoder_delta_nth)
  have first: "(\<exists>j<k. j \<noteq> ?l \<and> isnan (delta_arr ! i ! j ! e) \<and>
              (\<forall>j'<k. j' \<noteq> j \<longrightarrow> \<not> isnan (delta_arr ! i ! j' ! e))) \<and>
         isfinite (square (delta_arr ! i ! ?l ! e))
         \<longrightarrow> \<not> isnan (?enc ! i ! e) \<and> (\<bar>w\<bar> \<le> 1 \<longrightarrow> isfinite (?enc ! i ! e))"
  proof
    assume a: "(\<exists>j<k. j \<noteq> ?l \<and> isnan (delta_arr ! i ! j ! e) \<and>
              (\<forall>j'<k. j' \<noteq> j \<longrightarrow> \<not> isnan (delta_arr ! i ! j' ! e))) \<and>
         isfinite (square (delta_arr ! i ! ?l ! e))"
    then have nn: "\<not> isnan (delta_arr ! i ! ?l ! e)" using l by metis
    define c where "c = nonfinite_others k ?l (delta_arr ! i) e"
    define a where "a = ieee_div (square (delta_arr ! i ! ?l ! e)) (k - c)"
    have ck: "c < k" using count_assigned[OF l nn] by (simp add: c_def)
    have mean: "nanmean (masked_slice k ?l (delta_arr ! i) e) = a"
      using nanmean_masked_assigned[OF l nn] by (simp add: a_def c_def)
    have fin: "isfinite a"
      unfolding a_def by (rule div_square_finite) (use a ck in simp_all)
    have fl: "is_float64 a" by (simp add: a_def)
    have "\<not> isnan (ieee_mul a (Fin w))" by (rule mul_finite_not_nan[OF fin])
    moreover have "\<bar>w\<bar> \<le> 1 \<longrightarrow> isfinite (ieee_mul a (Fin w))"
      using mul_small_finite[OF fin fl] by blast
    ultimately show "\<not> isnan (?enc ! i ! e) \<and> (\<bar>w\<bar> \<le> 1 \<longrightarrow> isfinite (?enc ! i ! e))"
      unfolding en mean by blast
  qed
  have infinite: "(\<exists>j<k. j \<noteq> ?l \<and> isnan (delta_arr ! i ! j ! e) \<and>
              (\<forall>j'<k. j' \<noteq> j \<longrightarrow> \<not> isnan (delta_arr ! i ! j' ! e))) \<and>
         \<not> isfinite (square (delta_arr ! i ! ?l ! e))
         \<longrightarrow> ?enc ! i ! e = (if w = 0 then NaN else if 0 < w then PInf else NInf)"
  proof
    assume a: "(\<exists>j<k. j \<noteq> ?l \<and> isnan (delta_arr ! i ! j ! e) \<and>
              (\<forall>j'<k. j' \<noteq> j \<longrightarrow> \<not> isnan (delta_arr ! i ! j' ! e))) \<and>
         \<not> isfinite (square (delta_arr ! i ! ?l ! e))"
    then have nn: "\<not> isnan (delta_arr ! i ! ?l ! e)" using l by metis
    have sq: "square (delta_arr ! i ! ?l ! e) = PInf"
      by (rule square_PInf[OF nn]) (use a in simp)
    have ck: "nonfinite_others k ?l (delta_arr ! i) e < k"
      using count_assigned[OF l nn] by simp
    have mean: "nanmean (masked_slice k ?l (delta_arr ! i) e) = PInf"
      unfolding nanmean_masked_assigned[OF l nn] sq using ck by (simp add: ieee_div_def)
    show "?enc ! i ! e = (if w = 0 then NaN else if 0 < w then PInf else NInf)"
      unfolding en mean by (simp add: ieee_mul_def sgn_if)
  qed
  have second: "isnan (delta_arr ! i ! ?l ! e)
         \<longrightarrow> ?enc ! i ! e =
               (if \<exists>j<k. j \<noteq> ?l \<and> isfinite (square (delta_arr ! i ! j ! e))
                then Fin 0 else NaN)"
  proof
    assume a: "isnan (delta_arr ! i ! ?l ! e)"
    have z: "ieee_mul (Fin 0) (Fin w) = Fin 0" by (simp add: ieee_mul_def)
    show "?enc ! i ! e =
               (if \<exists>j<k. j \<noteq> ?l \<and> isfinite (square (delta_arr ! i ! j ! e))
                then Fin 0 else NaN)"
      unfolding en nanmean_masked_nan[OF l a] using z by simp
  qed
  from al cl first infinite second show ?thesis by blast
qed

text \<open>
  The theorem at three concrete inputs: a NaN at another cluster with a number at the
  assigned one; with \<open>2\<^sup>7\<^sup>0\<^sup>0\<close> at the assigned one, whose square overflows, and the
  weight 0; and a NaN at the assigned cluster.
\<close>

theorem nan_propagation_witness:
  "(\<exists>enc. compute_clustering_loss (init None) [[Fin 7]] [[Fin 7]] [[Fin 7]]
        [[[Fin 2], [NaN], [Fin 7]]] [[[Fin 0.9], [Fin 0.1], [Fin 0]]] [[Fin 0.9, Fin 0.1, Fin 0]]
        = Inr (enc, None, None) \<and> \<not> isnan (enc ! 0 ! 0) \<and> isfinite (enc ! 0 ! 0)) \<and>
   (\<exists>enc. compute_clustering_loss (init (Some (Fin 0))) [[Fin 7]] [[Fin 7]] [[Fin 7]]
        [[[Fin big], [NaN], [Fin 7]]] [[[Fin 0.9], [Fin 0.1], [Fin 0]]] [[Fin 0.9, Fin 0.1, Fin 0]]
        = Inr (enc, None, None) \<and> enc ! 0 ! 0 = NaN) \<and>
   (\<exists>enc. compute_clustering_loss (init None) [[Fin 7]] [[Fin 7]] [[Fin 7]]
        [[[NaN], [Fin 3], [Fin 7]]] [[[Fin 0.9], [Fin 0.1], [Fin 0]]] [[Fin 0.9, Fin 0.1, Fin 0]]
        = Inr (enc, None, None) \<and> enc ! 0 ! 0 = Fin 0)"
proof -
  let ?a = "[[[Fin 2], [NaN], [Fin 7]]]" and ?b = "[[[NaN], [Fin 3], [Fin 7]]]"
  let ?c = "[[[Fin big], [NaN], [Fin 7]]]"
  let ?q = "[[[Fin 0.9], [Fin 0.1], [Fin 0]]]" and ?p = "[[Fin 0.9, Fin 0.1, Fin 0]]"
  have ra: "rect3 1 3 1 ?a" and rb: "rect3 1 3 1 ?b" and rq: "rect3 1 3 1 ?q"
    by (simp_all add: rect3_def)
  have k: "(1::nat) < 3" and m: "(0::nat) < 1" by simp_all
  have w: "weight (init None) = Fin 0.125" by (simp add: init_def)
  have lab: "assign_label ?q = Inr [0]" by (simp add: loss_eval)
  from nan_propagation[OF ra rq k m m m w, of "[[Fin 7]]" "[[Fin 7]]" "[[Fin 7]]" ?p]
  obtain ls enc where a: "assign_label ?q = Inr ls"
    "compute_clustering_loss (init None) [[Fin 7]] [[Fin 7]] [[Fin 7]] ?a ?q ?p
       = Inr (enc, None, None)"
    "(\<exists>j<3. j \<noteq> ls ! 0 \<and> isnan (?a ! 0 ! j ! 0) \<and>
              (\<forall>j'<3. j' \<noteq> j \<longrightarrow> \<not> isnan (?a ! 0 ! j' ! 0))) \<and>
         isfinite (square (?a ! 0 ! (ls ! 0) ! 0))
         \<longrightarrow> \<not> isnan (enc ! 0 ! 0) \<and> (\<bar>0.125 :: real\<bar> \<le> 1 \<longrightarrow> isfinite (enc ! 0 ! 0))"
    by blast
  from a(1) lab have ls: "ls = [0]" by simp
  have "\<forall>j'<3. j' \<noteq> 1 \<longrightarrow> \<not> isnan (?a ! 0 ! j' ! 0)"
    by (simp add: less_Suc_eq numeral_3_eq_3)
  then have "(1::nat) < 3 \<and> 1 \<noteq> ls ! 0 \<and> isnan (?a ! 0 ! 1 ! 0) \<and>
              (\<forall>j'<3. j' \<noteq> 1 \<longrightarrow> \<not> isnan (?a ! 0 ! j' ! 0))"
    unfolding ls by simp
  then have "\<exists>j<3. j \<noteq> ls ! 0 \<and> isnan (?a ! 0 ! j ! 0) \<and>
              (\<forall>j'<3. j' \<noteq> j \<longrightarrow> \<not> isnan (?a ! 0 ! j' ! 0))"
    by blast
  moreover have "isfinite (square (?a ! 0 ! (ls ! 0) ! 0))"
    unfolding ls by (simp add: square_def ieee_mul_def)
  moreover have "\<bar>0.125 :: real\<bar> \<le> 1" by simp
  ultimately have first: "\<not> isnan (enc ! 0 ! 0) \<and> isfinite (enc ! 0 ! 0)"
    using a(3) by blast
  from nan_propagation[OF rb rq k m m m w, of "[[Fin 7]]" "[[Fin 7]]" "[[Fin 7]]" ?p]
  obtain ls' enc' where b: "assign_label ?q = Inr ls'"
    "compute_clustering_loss (init None) [[Fin 7]] [[Fin 7]] [[Fin 7]] ?b ?q ?p
       = Inr (enc', None, None)"
    "isnan (?b ! 0 ! (ls' ! 0) ! 0)
         \<longrightarrow> enc' ! 0 ! 0 =
               (if \<exists>j<3. j \<noteq> ls' ! 0 \<and> isfinite (square (?b ! 0 ! j ! 0))
                then Fin 0 else NaN)"
    by blast
  from b(1) lab have ls': "ls' = [0]" by simp
  have n: "isnan (?b ! 0 ! (ls' ! 0) ! 0)" unfolding ls' by simp
  have "(1::nat) < 3 \<and> 1 \<noteq> ls' ! 0 \<and> isfinite (square (?b ! 0 ! 1 ! 0))"
    unfolding ls' by (simp add: square_def ieee_mul_def)
  then have "\<exists>j<3. j \<noteq> ls' ! 0 \<and> isfinite (square (?b ! 0 ! j ! 0))" by blast
  with b(3) n have second: "enc' ! 0 ! 0 = Fin 0" by simp
  have rc: "rect3 1 3 1 ?c" by (simp add: rect3_def)
  have w0: "weight (init (Some (Fin 0))) = Fin 0" by (simp add: init_def)
  from nan_propagation[OF rc rq k m m m w0, of "[[Fin 7]]" "[[Fin 7]]" "[[Fin 7]]" ?p]
  obtain ls'' enc'' where c: "assign_label ?q = Inr ls''"
    "compute_clustering_loss (init (Some (Fin 0))) [[Fin 7]] [[Fin 7]] [[Fin 7]] ?c ?q ?p
       = Inr (enc'', None, None)"
    "(\<exists>j<3. j \<noteq> ls'' ! 0 \<and> isnan (?c ! 0 ! j ! 0) \<and>
              (\<forall>j'<3. j' \<noteq> j \<longrightarrow> \<not> isnan (?c ! 0 ! j' ! 0))) \<and>
         \<not> isfinite (square (?c ! 0 ! (ls'' ! 0) ! 0))
         \<longrightarrow> enc'' ! 0 ! 0 = (if (0::real) = 0 then NaN else if (0::real) < 0 then PInf else NInf)"
    by blast
  from c(1) lab have ls'': "ls'' = [0]" by simp
  have "\<forall>j'<3. j' \<noteq> 1 \<longrightarrow> \<not> isnan (?c ! 0 ! j' ! 0)"
    by (simp add: less_Suc_eq numeral_3_eq_3)
  then have "(1::nat) < 3 \<and> 1 \<noteq> ls'' ! 0 \<and> isnan (?c ! 0 ! 1 ! 0) \<and>
              (\<forall>j'<3. j' \<noteq> 1 \<longrightarrow> \<not> isnan (?c ! 0 ! j' ! 0))"
    unfolding ls'' by simp
  then have "\<exists>j<3. j \<noteq> ls'' ! 0 \<and> isnan (?c ! 0 ! j ! 0) \<and>
              (\<forall>j'<3. j' \<noteq> j \<longrightarrow> \<not> isnan (?c ! 0 ! j' ! 0))"
    by blast
  moreover have "\<not> isfinite (square (?c ! 0 ! (ls'' ! 0) ! 0))"
    unfolding ls'' by (simp add: square_def ieee_mul_def)
  ultimately have third: "enc'' ! 0 ! 0 = NaN"
    using c(3) by simp
  from a(2) first b(2) second c(2) third show ?thesis by blast
qed

text \<open>
  C3 as the specification states it fails. With a \<open>q_arr\<close> of one cluster against a
  \<open>delta_arr\<close> of two, and with a \<open>q_arr\<close> of one sample against a \<open>delta_arr\<close> of
  two (the mask row is broadcast over both samples), the method returns a result.
\<close>

theorem shape_mismatch_counterexample:
  "shape1 [[[Fin 0.9]]] \<noteq> shape1 [[[Fin 1], [Fin 3]]] \<and>
   compute_clustering_loss (init (Some (Fin 1))) [[Fin 7]] [[Fin 7]] [[Fin 7]]
       [[[Fin 1], [Fin 3]]] [[[Fin 0.9]]] [[Fin 0.5, Fin 0.5]]
     = Inr ([[Fin 0.5]], None, None) \<and>
   shape0 [[[Fin 0.9], [Fin 1]]] \<noteq> shape0 [[[Fin 1], [Fin 3]], [[Fin 2], [Fin 5]]] \<and>
   compute_clustering_loss (init (Some (Fin 1))) [[Fin 7], [Fin 7]] [[Fin 7], [Fin 7]]
       [[Fin 7], [Fin 7]]
       [[[Fin 1], [Fin 3]], [[Fin 2], [Fin 5]]] [[[Fin 0.9], [Fin 1]]]
       [[Fin 0.5, Fin 0.5], [Fin 0.5, Fin 0.5]]
     = Inr ([[Fin 4.5], [Fin 12.5]], None, None)"
  by (simp add: loss_eval)

text \<open>
  C3, amended. The method validates no shape. For a \<open>delta_arr\<close> of shape
  \<open>n \<times> k \<times> d\<close> and a \<open>q_arr\<close> of shape \<open>n \<times> k' \<times> m\<close> with \<open>1 \<le> k' \<le> k\<close> and
  \<open>1 \<le> m\<close> it returns a result, also when \<open>k' \<noteq> k\<close>. Its outcome is the same whatever
  the observed, reconstructed and feature arrays and \<open>p_arr\<close> are. And when label
  assignment returns a label that is not below \<open>k\<close>, the cluster-axis size of a
  \<open>delta_arr\<close> with at least one sample (as it can when \<open>q_arr\<close> has more clusters than
  \<open>delta_arr\<close>), the call ends with numpy's IndexError, raised by the loop that fills the
  mask, not with a shape error.
\<close>

theorem no_shape_validation:
  "(rect3 n k d delta_arr \<and> rect3 n k' m q_arr \<and> 0 < k' \<and> k' \<le> k \<and> 0 < m \<longrightarrow>
      (\<exists>enc. compute_clustering_loss self observed_arr reconstructed_arr feature_arr
                delta_arr q_arr p_arr = Inr (enc, None, None))) \<and>
   compute_clustering_loss self observed_arr' reconstructed_arr' feature_arr'
       delta_arr q_arr p_arr'
     = compute_clustering_loss self observed_arr reconstructed_arr feature_arr
         delta_arr q_arr p_arr \<and>
   (rect3 n k d delta_arr \<and> 0 < n \<and> assign_label q_arr = Inr ls \<and> (\<exists>l\<in>set ls. k \<le> l) \<longrightarrow>
      compute_clustering_loss self observed_arr reconstructed_arr feature_arr
         delta_arr q_arr p_arr = Inl IndexError)"
proof -
  have a: "rect3 n k d delta_arr \<and> rect3 n k' m q_arr \<and> 0 < k' \<and> k' \<le> k \<and> 0 < m \<longrightarrow>
      (\<exists>enc. compute_clustering_loss self observed_arr reconstructed_arr feature_arr
                delta_arr q_arr p_arr = Inr (enc, None, None))"
  proof
    assume h: "rect3 n k d delta_arr \<and> rect3 n k' m q_arr \<and> 0 < k' \<and> k' \<le> k \<and> 0 < m"
    let ?ls = "map (\<lambda>r. argmax_index (map (collapse_cell m) r)) q_arr"
    have rd: "rect3 n k d delta_arr" and rq: "rect3 n k' m q_arr" and k': "0 < k'"
      and kk: "k' \<le> k" and m: "0 < m"
      using h by blast+
    have k0: "0 < k" using k' kk by simp
    have al: "assign_label q_arr = Inr ?ls" by (rule assign_label_char[OF rq k' m])
    from assign_label_in_range[OF rq k' m al]
    have len: "length ?ls = n" and rng': "\<forall>l\<in>set ?ls. l < k'" by auto
    have rng: "\<forall>l\<in>set ?ls. l < k" using rng' kk by auto
    show "\<exists>enc. compute_clustering_loss self observed_arr reconstructed_arr feature_arr
                  delta_arr q_arr p_arr = Inr (enc, None, None)"
      using loss_char[OF rd k0 al len rng] by blast
  qed
  have b: "compute_clustering_loss self observed_arr' reconstructed_arr' feature_arr'
             delta_arr q_arr p_arr'
           = compute_clustering_loss self observed_arr reconstructed_arr feature_arr
               delta_arr q_arr p_arr"
    by (simp add: compute_clustering_loss_def)
  have c: "rect3 n k d delta_arr \<and> 0 < n \<and> assign_label q_arr = Inr ls \<and> (\<exists>l\<in>set ls. k \<le> l)
         \<longrightarrow> compute_clustering_loss self observed_arr reconstructed_arr feature_arr
               delta_arr q_arr p_arr = Inl IndexError"
  proof
    assume h: "rect3 n k d delta_arr \<and> 0 < n \<and> assign_label q_arr = Inr ls \<and>
               (\<exists>l\<in>set ls. k \<le> l)"
    then have s: "shape1 delta_arr = k" using shape1_rect3 by blast
    from h have "\<exists>l\<in>set ls. \<not> l < shape1 delta_arr" unfolding s by (simp add: not_less)
    from fill_hot_IndexError[OF this]
    have "t_hot_arr ls delta_arr = Inl IndexError" by (simp add: t_hot_arr_def)
    with h show "compute_clustering_loss self observed_arr reconstructed_arr feature_arr
               delta_arr q_arr p_arr = Inl IndexError"
      by (simp add: compute_clustering_loss_def delta_kmeans_arr_def)
  qed
  from a b c show ?thesis by blast
qed

text \<open>
  The theorem at two concrete inputs: a \<open>q_arr\<close> of two clusters against a \<open>delta_arr\<close>
  of three, which returns, and a \<open>q_arr\<close> of three clusters against a \<open>delta_arr\<close> of
  two, whose label 2 ends the call with IndexError.
\<close>

theorem no_shape_validation_witness:
  "(\<exists>enc. compute_clustering_loss (init None) [[Fin 7]] [] [[Fin 7, Fin 7]]
        [[[Fin 1], [Fin 3], [Fin 4]], [[Fin 2], [Fin 5], [Fin 6]]]
        [[[Fin 0.9], [Fin 0.1]], [[Fin 0.2], [Fin 0.8]]] [[Fin 1]] = Inr (enc, None, None)) \<and>
   assign_label [[[Fin 0.1], [Fin 0.2], [Fin 0.9]]] = Inr [2] \<and>
   compute_clustering_loss (init None) [[Fin 7]] [] [[Fin 7, Fin 7]]
        [[[Fin 1], [Fin 3]]] [[[Fin 0.1], [Fin 0.2], [Fin 0.9]]] [[Fin 1]] = Inl IndexError"
proof -
  let ?d = "[[[Fin 1], [Fin 3], [Fin 4]], [[Fin 2], [Fin 5], [Fin 6]]]"
  let ?q = "[[[Fin 0.9], [Fin 0.1]], [[Fin 0.2], [Fin 0.8]]]"
  let ?d' = "[[[Fin 1], [Fin 3]]]" and ?q' = "[[[Fin 0.1], [Fin 0.2], [Fin 0.9]]]"
  have r: "rect3 2 3 1 ?d" and rq: "rect3 2 2 1 ?q" and r': "rect3 1 2 1 ?d'"
    by (simp_all add: rect3_def)
  have h: "rect3 2 3 1 ?d \<and> rect3 2 2 1 ?q \<and> (0::nat) < 2 \<and> (2::nat) \<le> 3 \<and> (0::nat) < 1"
    using r rq by simp
  have al: "assign_label ?q' = Inr [2]" by (simp add: loss_eval)
  have h': "rect3 1 2 1 ?d' \<and> (0::nat) < 1 \<and> assign_label ?q' = Inr [2] \<and> (\<exists>l\<in>set [2]. (2::nat) \<le> l)"
    using r' al by simp
  have "\<exists>enc. compute_clustering_loss (init None) [[Fin 7]] [] [[Fin 7, Fin 7]] ?d ?q [[Fin 1]]
      = Inr (enc, None, None)"
    using no_shape_validation[of 2 3 1 ?d 2 1 ?q "init None" "[[Fin 7]]" "[]" "[[Fin 7, Fin 7]]"
        "[[Fin 1]]"] h by blast
  moreover have "compute_clustering_loss (init None) [[Fin 7]] [] [[Fin 7, Fin 7]] ?d' ?q' [[Fin 1]]
      = Inl IndexError"
    using no_shape_validation[of 1 2 1 ?d' _ _ ?q' "init None" "[[Fin 7]]" "[]" "[[Fin 7, Fin 7]]"
        "[[Fin 1]]" _ _ _ _ "[2]"] h' by blast
  ultimately show ?thesis using al by blast
qed




text \<open>
  C5. For labels below \<open>k\<close>, one per sample, and a \<open>delta_arr\<close> of shape \<open>n \<times> k \<times> d\<close>,
  the mask is built without error and has shape \<open>n \<times> k \<times> 1\<close>; in every row the entry at
  the label is 1 and every other entry is 0, so exactly one entry of the row is 1; the sum
  of all entries of the mask is \<open>n\<close>.
\<close>

theorem mask_one_hot:
  assumes "rect3 n k d delta_arr" "length ls = n" "\<forall>l\<in>set ls. l < k"
  shows "\<exists>t. t_hot_arr ls delta_arr = Inr t \<and> rect3 n k 1 t \<and>
      (\<forall>i<n. t ! i ! (ls ! i) = [Fin 1] \<and>
              (\<forall>j<k. j \<noteq> ls ! i \<longrightarrow> t ! i ! j = [Fin 0]) \<and>
              length (filter (\<lambda>c. c = [Fin 1]) (t ! i)) = 1) \<and>
      sum_list (map val (concat (concat t))) = real n"
proof -
  let ?t = "expand_dims2 (map (one_hot k) ls)"
  have t: "t_hot_arr ls delta_arr = Inr ?t" by (rule t_hot_arr_char[OF assms])
  have r: "rect3 n k 1 ?t"
    using assms(2) by (simp add: rect3_def expand_dims2_def list_all_iff length_one_hot)
  have rows: "\<forall>i<n. ?t ! i ! (ls ! i) = [Fin 1] \<and>
              (\<forall>j<k. j \<noteq> ls ! i \<longrightarrow> ?t ! i ! j = [Fin 0]) \<and>
              length (filter (\<lambda>c. c = [Fin 1]) (?t ! i)) = 1"
  proof (intro allI impI)
    fix i assume i: "i < n"
    then have l: "ls ! i < k" using assms(2,3) by simp
    have ti: "?t ! i = map (\<lambda>x. [x]) (one_hot k (ls ! i))"
      using i assms(2) by (simp add: expand_dims2_def)
    show "?t ! i ! (ls ! i) = [Fin 1] \<and>
              (\<forall>j<k. j \<noteq> ls ! i \<longrightarrow> ?t ! i ! j = [Fin 0]) \<and>
              length (filter (\<lambda>c. c = [Fin 1]) (?t ! i)) = 1"
      unfolding ti using l one_hot_count[OF l]
      by (simp add: length_one_hot one_hot_nth)
  qed
  have s: "sum_list (map val (concat (concat ?t))) = real n"
    using sum_concat_one_hot[OF assms(3)] assms(2) by simp
  from t r rows s show ?thesis by blast
qed

text \<open>The theorem at a concrete input.\<close>

theorem mask_one_hot_witness:
  "rect3 2 3 1 [[[Fin 1], [Fin 3], [Fin 4]], [[Fin 2], [Fin 5], [Fin 6]]] \<and>
   (\<exists>t. t_hot_arr [2, 0] [[[Fin 1], [Fin 3], [Fin 4]], [[Fin 2], [Fin 5], [Fin 6]]] = Inr t \<and>
        rect3 2 3 1 t \<and> t ! 0 ! 2 = [Fin 1] \<and> t ! 1 ! 0 = [Fin 1] \<and>
        sum_list (map val (concat (concat t))) = 2)"
proof -
  let ?d = "[[[Fin 1], [Fin 3], [Fin 4]], [[Fin 2], [Fin 5], [Fin 6]]]"
  have r: "rect3 2 3 1 ?d" by (simp add: rect3_def)
  have len: "length [2, 0::nat] = 2" by simp
  have rng: "\<forall>l\<in>set [2, 0::nat]. l < 3" by simp
  from mask_one_hot[OF r len rng]
  obtain t where t: "t_hot_arr [2, 0] ?d = Inr t" "rect3 2 3 1 t"
    "\<forall>i<2. t ! i ! ([2, 0] ! i) = [Fin 1] \<and>
              (\<forall>j<3. j \<noteq> [2, 0] ! i \<longrightarrow> t ! i ! j = [Fin 0]) \<and>
              length (filter (\<lambda>c. c = [Fin 1]) (t ! i)) = 1"
    "sum_list (map val (concat (concat t))) = real 2"
    by blast
  have "t ! 0 ! 2 = [Fin 1]" using t(3)[rule_format, of 0] by simp
  moreover have "t ! 1 ! 0 = [Fin 1]" using t(3)[rule_format, of 1] by simp
  ultimately show ?thesis using r t(1,2,4) by auto
qed

text \<open>
  C6. On arrays of consistent shape the method returns; for a sample \<open>i\<close> and a feature
  index \<open>e\<close> such that all \<open>k\<close> entries of the masked squared distances at \<open>[i, :, e]\<close>
  are NaN, the entry \<open>[i, e]\<close> of the encoder delta is NaN, whatever the weight.
\<close>

theorem all_nan_slice_gives_nan:
  assumes "rect3 n k d delta_arr" "rect3 n k m q_arr" "0 < k" "0 < m" "i < n" "e < d"
  shows "\<exists>ls dk enc. assign_label q_arr = Inr ls \<and> delta_kmeans_arr ls delta_arr = Inr dk \<and>
      compute_clustering_loss self observed_arr reconstructed_arr feature_arr delta_arr q_arr p_arr
        = Inr (enc, None, None) \<and>
      ((\<forall>j<k. isnan (dk ! i ! j ! e)) \<longrightarrow> enc ! i ! e = NaN)"
proof -
  let ?ls = "map (\<lambda>r. argmax_index (map (collapse_cell m) r)) q_arr"
  let ?dk = "masked k ?ls delta_arr"
  let ?enc = "encoder_delta (weight self) k d ?ls delta_arr"
  have al: "assign_label q_arr = Inr ?ls" by (rule assign_label_char[OF assms(2,3,4)])
  from assign_label_in_range[OF assms(2,3,4) al]
  have len: "length ?ls = n" and rng: "\<forall>l\<in>set ?ls. l < k" by auto
  have dk: "delta_kmeans_arr ?ls delta_arr = Inr ?dk"
    by (rule delta_kmeans_arr_char[OF assms(1) len rng])
  have cl: "compute_clustering_loss self observed_arr reconstructed_arr feature_arr
              delta_arr q_arr p_arr = Inr (?enc, None, None)"
    by (rule loss_char[OF assms(1,3) al len rng])
  have "(\<forall>j<k. isnan (?dk ! i ! j ! e)) \<longrightarrow> ?enc ! i ! e = NaN"
  proof
    assume a: "\<forall>j<k. isnan (?dk ! i ! j ! e)"
    have col: "map (\<lambda>c. c ! e) (?dk ! i) = masked_slice k (?ls ! i) (delta_arr ! i) e"
      by (rule masked_column[OF assms(1) len assms(5,6)])
    have lk: "length (?dk ! i) = k"
      using rect3_nth[OF rect3_masked[OF assms(1) len] assms(5)] by simp
    have "\<forall>x\<in>set (map (\<lambda>c. c ! e) (?dk ! i)). isnan x"
      using a lk by (auto simp: in_set_conv_nth)
    then have "nanmean (masked_slice k (?ls ! i) (delta_arr ! i) e) = NaN"
      using nanmean_all_nan col by metis
    then show "?enc ! i ! e = NaN"
      using assms(5,6) len by (simp add: encoder_delta_nth)
  qed
  with al dk cl show ?thesis by blast
qed

text \<open>
  The theorem at two concrete inputs: a slice of two NaN entries, and a slice whose entry
  at the label is NaN and whose other entry is an infinity, which the mask turns into NaN.
\<close>

theorem all_nan_slice_gives_nan_witness:
  "rect3 1 2 1 [[[NaN], [NaN]]] \<and>
   (\<exists>enc. compute_clustering_loss (init None) [[Fin 7]] [[Fin 7]] [[Fin 7]]
        [[[NaN], [NaN]]] [[[Fin 0.9], [Fin 0.1]]] [[Fin 0.9, Fin 0.1]] = Inr (enc, None, None) \<and>
      enc ! 0 ! 0 = NaN) \<and>
   (\<exists>enc. compute_clustering_loss (init None) [[Fin 7]] [[Fin 7]] [[Fin 7]]
        [[[NaN], [PInf]]] [[[Fin 0.9], [Fin 0.1]]] [[Fin 0.9, Fin 0.1]] = Inr (enc, None, None) \<and>
      enc ! 0 ! 0 = NaN)"
proof -
  let ?d = "[[[NaN], [NaN]]]" and ?d' = "[[[NaN], [PInf]]]" and ?q = "[[[Fin 0.9], [Fin 0.1]]]"
  have r: "rect3 1 2 1 ?d" and r': "rect3 1 2 1 ?d'" and rq: "rect3 1 2 1 ?q"
    by (simp_all add: rect3_def)
  have k: "(0::nat) < 2" and m: "(0::nat) < 1" by simp_all
  have lab: "assign_label ?q = Inr [0]" by (simp add: loss_eval)
  from all_nan_slice_gives_nan[OF r rq k m m m, of "init None" "[[Fin 7]]" "[[Fin 7]]" "[[Fin 7]]"
      "[[Fin 0.9, Fin 0.1]]"]
  obtain ls dk enc where h: "assign_label ?q = Inr ls" "delta_kmeans_arr ls ?d = Inr dk"
    "compute_clustering_loss (init None) [[Fin 7]] [[Fin 7]] [[Fin 7]] ?d ?q [[Fin 0.9, Fin 0.1]]
       = Inr (enc, None, None)"
    "(\<forall>j<2. isnan (dk ! 0 ! j ! 0)) \<longrightarrow> enc ! 0 ! 0 = NaN"
    by blast
  from lab h(1) have ls: "ls = [0]" by simp
  have "delta_kmeans_arr [0] ?d = Inr [[[NaN], [NaN]]]" by (simp add: loss_eval)
  with h(2) ls have dk: "dk = [[[NaN], [NaN]]]" by simp
  have "\<forall>j<2. isnan (dk ! 0 ! j ! 0)" unfolding dk by (simp add: less_Suc_eq numeral_2_eq_2)
  with h(4) have one: "enc ! 0 ! 0 = NaN" by blast
  from all_nan_slice_gives_nan[OF r' rq k m m m, of "init None" "[[Fin 7]]" "[[Fin 7]]" "[[Fin 7]]"
      "[[Fin 0.9, Fin 0.1]]"]
  obtain ls' dk' enc' where h': "assign_label ?q = Inr ls'" "delta_kmeans_arr ls' ?d' = Inr dk'"
    "compute_clustering_loss (init None) [[Fin 7]] [[Fin 7]] [[Fin 7]] ?d' ?q [[Fin 0.9, Fin 0.1]]
       = Inr (enc', None, None)"
    "(\<forall>j<2. isnan (dk' ! 0 ! j ! 0)) \<longrightarrow> enc' ! 0 ! 0 = NaN"
    by blast
  from lab h'(1) have ls': "ls' = [0]" by simp
  have "delta_kmeans_arr [0] ?d' = Inr [[[NaN], [NaN]]]" by (simp add: loss_eval)
  with h'(2) ls' have dk': "dk' = [[[NaN], [NaN]]]" by simp
  have "\<forall>j<2. isnan (dk' ! 0 ! j ! 0)" unfolding dk' by (simp add: less_Suc_eq numeral_2_eq_2)
  with h'(4) have two: "enc' ! 0 ! 0 = NaN" by blast
  from h(3) one h'(3) two r show ?thesis by blast
qed

text \<open>
  C7 as the specification states it fails on float64 numbers. One sample, one cluster,
  \<^verbatim>\<open>delta_arr = [[[1 + 2**-26]]]\<close>: its square, \<^verbatim>\<open>1 + 2**-25 + 2**-52\<close>, is a float64
  number, and it is the mean that reaches line 62. With \<open>w = 3\<close> and \<open>c = 3\<close> the weights
  3 and 9 are float64 numbers too. The encoder delta is 3.000000089406968 for the weight 3
  and 9.000000268220903 for the weight 9; 3 times the former is not the latter, neither as
  a real number nor as the float64 product, which is 9.000000268220905.
\<close>

theorem weight_linearity_counterexample:
  "compute_clustering_loss64 (init (Some (Fin 3))) [[Fin 7]] [[Fin 7]] [[Fin 7]]
       [[[Fin (67108865 / 67108864)]]] [[[Fin 1]]] [[Fin 1]]
     = Inr ([[Fin (3377699821191169 / 1125899906842624)]], None, None) \<and>
   compute_clustering_loss64 (init (Some (Fin 9))) [[Fin 7]] [[Fin 7]] [[Fin 7]]
       [[[Fin (67108865 / 67108864)]]] [[[Fin 1]]] [[Fin 1]]
     = Inr ([[Fin (5066549731786753 / 562949953421312)]], None, None) \<and>
   (5066549731786753 / 562949953421312 :: real) \<noteq> 3 * (3377699821191169 / 1125899906842624) \<and>
   fmul64 (Fin 3) (Fin (3377699821191169 / 1125899906842624))
     = Fin (2533274865893377 / 281474976710656) \<and>
   (5066549731786753 / 562949953421312 :: real) \<noteq> 2533274865893377 / 281474976710656"
proof -
  let ?m = "4503599761588225 / 4503599627370496 :: real"
  have l: "assign_label [[[Fin 1]]] = Inr [0]"
    by (simp add: loss_eval)
  have m: "delta_kmeans_arr [0] [[[Fin (67108865 / 67108864)]]] = Inr [[[Fin ?m]]]"
    by (simp add: loss_eval)
  have z: "nanmean_axis1 [[[Fin ?m]]] = [[Fin ?m]]"
    by (simp add: nanmean_axis1_def shape2_def nanmean_def fsum_def ieee_add_def ieee_div_def)
  have run: "\<And>v. compute_clustering_loss64 (init (Some (Fin v))) [[Fin 7]] [[Fin 7]] [[Fin 7]]
       [[[Fin (67108865 / 67108864)]]] [[[Fin 1]]] [[Fin 1]]
     = Inr ([[fmul64 (Fin ?m) (Fin v)]], None, None)"
    by (simp only: compute_clustering_loss64_def l m z sum.case scale64_def list.map init_def
        option.case KMeansLoss.select_convs)
  have a: "fmul64 (Fin ?m) (Fin 3) = Fin (3377699821191169 / 1125899906842624)"
    by (simp only: fmul64.simps binary64_3_mean)
  have b: "fmul64 (Fin ?m) (Fin 9) = Fin (5066549731786753 / 562949953421312)"
    by (simp only: fmul64.simps binary64_9_mean)
  have c: "fmul64 (Fin 3) (Fin (3377699821191169 / 1125899906842624))
     = Fin (2533274865893377 / 281474976710656)"
    by (simp only: fmul64.simps binary64_3_delta)
  have d: "(5066549731786753 / 562949953421312 :: real) \<noteq> 3 * (3377699821191169 / 1125899906842624)"
    and e: "(5066549731786753 / 562949953421312 :: real) \<noteq> 2533274865893377 / 281474976710656"
    by simp_all
  from run[of 3] run[of 9] a b c d e show ?thesis by (simp only: simp_thms)
qed

text \<open>
  C7, amended. For \<open>c\<close> a power of two, \<open>c = 2\<^sup>j\<close> with \<open>j\<close> an integer, and every weight
  \<open>w\<close>: line 62 with the weight \<open>c * w\<close> gives exactly \<open>c\<close> times what it gives with the
  weight \<open>w\<close>, on every array of means, and so does the method on every input (an error
  stays the same error). Rounding to float64 commutes with the scaling by a power of two,
  overflow and underflow aside.
\<close>

theorem weight_linearity_power_of_two:
  "scale64 z (Fin (2 powr of_int j * w))
     = map (map (fmul (Fin (2 powr of_int j)))) (scale64 z (Fin w)) \<and>
   compute_clustering_loss64 (init (Some (Fin (2 powr of_int j * w))))
       observed_arr reconstructed_arr feature_arr delta_arr q_arr p_arr =
     (case compute_clustering_loss64 (init (Some (Fin w)))
             observed_arr reconstructed_arr feature_arr delta_arr q_arr p_arr of
        Inl e \<Rightarrow> Inl e
      | Inr (enc, dec, cen) \<Rightarrow> Inr (map (map (fmul (Fin (2 powr of_int j)))) enc, dec, cen))"
  by (simp add: compute_clustering_loss64_def scale64_def init_def fmul64_scale comp_def
      split: sum.splits)

text \<open>The theorem at a concrete input: the weights 3 and 6 on the input above.\<close>

theorem weight_linearity_power_of_two_witness:
  "compute_clustering_loss64 (init (Some (Fin 6))) [[Fin 7]] [[Fin 7]] [[Fin 7]]
       [[[Fin (67108865 / 67108864)]]] [[[Fin 1]]] [[Fin 1]]
     = Inr ([[Fin (2 * (3377699821191169 / 1125899906842624))]], None, None)"
proof -
  let ?m = "4503599761588225 / 4503599627370496 :: real"
  have l: "assign_label [[[Fin 1]]] = Inr [0]"
    by (simp add: loss_eval)
  have m: "delta_kmeans_arr [0] [[[Fin (67108865 / 67108864)]]] = Inr [[[Fin ?m]]]"
    by (simp add: loss_eval)
  have z: "nanmean_axis1 [[[Fin ?m]]] = [[Fin ?m]]"
    by (simp add: nanmean_axis1_def shape2_def nanmean_def fsum_def ieee_add_def ieee_div_def)
  have three: "compute_clustering_loss64 (init (Some (Fin 3))) [[Fin 7]] [[Fin 7]] [[Fin 7]]
       [[[Fin (67108865 / 67108864)]]] [[[Fin 1]]] [[Fin 1]]
     = Inr ([[Fin (3377699821191169 / 1125899906842624)]], None, None)"
    by (simp only: compute_clustering_loss64_def l m z sum.case scale64_def list.map init_def
        option.case KMeansLoss.select_convs fmul64.simps binary64_3_mean)
  have six: "2 powr of_int 1 * 3 = (6::real)" by simp
  from weight_linearity_power_of_two[of "[[Fin ?m]]" 1 3 "[[Fin 7]]" "[[Fin 7]]" "[[Fin 7]]"
      "[[[Fin (67108865 / 67108864)]]]" "[[[Fin 1]]]" "[[Fin 1]]"]
  have "compute_clustering_loss64 (init (Some (Fin (2 powr of_int 1 * 3)))) [[Fin 7]] [[Fin 7]]
       [[Fin 7]] [[[Fin (67108865 / 67108864)]]] [[[Fin 1]]] [[Fin 1]]
     = Inr (map (map (fmul (Fin (2 powr of_int 1)))) [[Fin (3377699821191169 / 1125899906842624)]],
            None, None)"
    unfolding three by simp
  then show ?thesis unfolding six by simp
qed

text \<open>
  C8. An instance built without a weight has weight 0.125, and on arrays of consistent
  shape its encoder delta is the NaN-tolerant mean over the cluster axis of the masked
  squared distances, every entry multiplied by 0.125 with the float64 product of line 62.
\<close>

theorem default_weight:
  assumes "rect3 n k d delta_arr" "rect3 n k m q_arr" "0 < k" "0 < m"
  shows "weight (init None) = Fin 0.125 \<and>
     (\<exists>ls dk. assign_label q_arr = Inr ls \<and> delta_kmeans_arr ls delta_arr = Inr dk \<and>
        compute_clustering_loss (init None) observed_arr reconstructed_arr feature_arr
            delta_arr q_arr p_arr
          = Inr (map (map (\<lambda>x. ieee_mul x (Fin 0.125))) (nanmean_axis1 dk), None, None))"
proof -
  let ?ls = "map (\<lambda>r. argmax_index (map (collapse_cell m) r)) q_arr"
  have al: "assign_label q_arr = Inr ?ls" by (rule assign_label_char[OF assms(2,3,4)])
  from assign_label_in_range[OF assms(2,3,4) al]
  have len: "length ?ls = n" and rng: "\<forall>l\<in>set ?ls. l < k" by auto
  have dk: "delta_kmeans_arr ?ls delta_arr = Inr (masked k ?ls delta_arr)"
    by (rule delta_kmeans_arr_char[OF assms(1) len rng])
  have "compute_clustering_loss (init None) observed_arr reconstructed_arr feature_arr
            delta_arr q_arr p_arr
          = Inr (map (map (\<lambda>x. ieee_mul x (Fin 0.125))) (nanmean_axis1 (masked k ?ls delta_arr)),
                 None, None)"
    using al dk by (simp add: compute_clustering_loss_def scale_def init_def)
  with al dk show ?thesis by (auto simp: init_def)
qed

text \<open>The theorem at a concrete input.\<close>

theorem default_weight_witness:
  "rect3 1 2 1 [[[Fin 4], [Fin 3]]] \<and>
   weight (init None) = Fin 0.125 \<and>
   compute_clustering_loss (init None) [[Fin 7]] [[Fin 7]] [[Fin 7]]
        [[[Fin 4], [Fin 3]]] [[[Fin 0.9], [Fin 0.1]]] [[Fin 0.9, Fin 0.1]]
     = Inr ([[Fin 1]], None, None)"
proof -
  let ?d = "[[[Fin 4], [Fin 3]]]" and ?q = "[[[Fin 0.9], [Fin 0.1]]]"
  have r: "rect3 1 2 1 ?d" and rq: "rect3 1 2 1 ?q" by (simp_all add: rect3_def)
  have k: "(0::nat) < 2" and m: "(0::nat) < 1" by simp_all
  from default_weight[OF r rq k m, of "[[Fin 7]]" "[[Fin 7]]" "[[Fin 7]]" "[[Fin 0.9, Fin 0.1]]"]
  obtain ls dk where h: "weight (init None) = Fin 0.125"
    "assign_label ?q = Inr ls" "delta_kmeans_arr ls ?d = Inr dk"
    "compute_clustering_loss (init None) [[Fin 7]] [[Fin 7]] [[Fin 7]] ?d ?q [[Fin 0.9, Fin 0.1]]
       = Inr (map (map (\<lambda>x. ieee_mul x (Fin 0.125))) (nanmean_axis1 dk), None, None)"
    by blast
  have "assign_label ?q = Inr [0]" by (simp add: loss_eval)
  with h(2) have ls: "ls = [0]" by simp
  have "delta_kmeans_arr [0] ?d = Inr [[[Fin 16], [Fin 0]]]" by (simp add: loss_eval)
  with h(3) ls have dk: "dk = [[[Fin 16], [Fin 0]]]" by simp
  have "map (map (\<lambda>x. ieee_mul x (Fin 0.125))) (nanmean_axis1 dk) = [[Fin 1]]"
    unfolding dk
    by (simp add: nanmean_axis1_def shape2_def nanmean_def fsum_def ieee_add_def ieee_div_def
        ieee_mul_def)
  with h(1,4) r show ?thesis by simp
qed

text \<open>
  C9 as the specification states it fails. One sample, three clusters, weight 1, label 0.
  With \<^verbatim>\<open>delta_arr = [[[2], [nan], [inf]]]\<close> one entry at another cluster is NaN, and
  the claim gives \<open>4 / (3 - 1) = 2\<close>; the method returns 4, because the product of the
  mask's 0 and the square of the infinity is NaN and is dropped too. The same happens
  with \<^verbatim>\<open>[[[2], [nan], [2**700]]]\<close>, three float64 entries of which only one is NaN:
  the square of the third overflows to an infinity. And with
  \<^verbatim>\<open>delta_arr = [[[0], [nan]]]\<close> the NaN at the other cluster does not change the value,
  which is 0 as it is with the denominator 2.
\<close>

theorem infinity_outside_assigned_cluster_counterexample:
  "assign_label [[[Fin 0.9], [Fin 0.1], [Fin 0]]] = Inr [0] \<and>
   nan_others 3 0 [[Fin 2], [NaN], [PInf]] 0 = 1 \<and>
   ieee_mul (ieee_div (square (Fin 2)) (3 - 1)) (Fin 1) = Fin 2 \<and>
   compute_clustering_loss (init (Some (Fin 1))) [[Fin 7]] [[Fin 7]] [[Fin 7]]
       [[[Fin 2], [NaN], [PInf]]] [[[Fin 0.9], [Fin 0.1], [Fin 0]]] [[Fin 0.9, Fin 0.1, Fin 0]]
     = Inr ([[Fin 4]], None, None) \<and>
   is_float64 (Fin big) \<and>
   nan_others 3 0 [[Fin 2], [NaN], [Fin big]] 0 = 1 \<and>
   compute_clustering_loss (init (Some (Fin 1))) [[Fin 7]] [[Fin 7]] [[Fin 7]]
       [[[Fin 2], [NaN], [Fin big]]] [[[Fin 0.9], [Fin 0.1], [Fin 0]]] [[Fin 0.9, Fin 0.1, Fin 0]]
     = Inr ([[Fin 4]], None, None) \<and>
   assign_label [[[Fin 0.9], [Fin 0.1]]] = Inr [0] \<and>
   nan_others 2 0 [[Fin 0], [NaN]] 0 = 1 \<and>
   ieee_mul (ieee_div (square (Fin 0)) 2) (Fin 1) = Fin 0 \<and>
   compute_clustering_loss (init (Some (Fin 1))) [[Fin 7]] [[Fin 7]] [[Fin 7]]
       [[[Fin 0], [NaN]]] [[[Fin 0.9], [Fin 0.1]]] [[Fin 0.9, Fin 0.1]]
     = Inr ([[Fin 0]], None, None)"
proof -
  have u3: "[0..<3] = [0, 1, 2]" and u2: "[0..<2] = [0, 1]" by (simp_all add: upt_rec)
  have a: "assign_label [[[Fin 0.9], [Fin 0.1], [Fin 0]]] = Inr [0]"
    and b: "assign_label [[[Fin 0.9], [Fin 0.1]]] = Inr [0]"
    by (simp_all add: loss_eval)
  have n1: "nan_others 3 0 [[Fin 2], [NaN], [PInf]] 0 = 1"
    and n2: "nan_others 3 0 [[Fin 2], [NaN], [Fin big]] 0 = 1"
    and n3: "nan_others 2 0 [[Fin 0], [NaN]] 0 = 1"
    by (simp_all add: nan_others_def u3 u2)
  have f1: "ieee_mul (ieee_div (square (Fin 2)) (3 - 1)) (Fin 1) = Fin 2"
    and f2: "ieee_mul (ieee_div (square (Fin 0)) 2) (Fin 1) = Fin 0"
    by (simp_all add: square_def ieee_mul_def ieee_div_def)
  have c1: "compute_clustering_loss (init (Some (Fin 1))) [[Fin 7]] [[Fin 7]] [[Fin 7]]
       [[[Fin 2], [NaN], [PInf]]] [[[Fin 0.9], [Fin 0.1], [Fin 0]]] [[Fin 0.9, Fin 0.1, Fin 0]]
     = Inr ([[Fin 4]], None, None)"
    by (simp add: loss_eval)
  have c2: "compute_clustering_loss (init (Some (Fin 1))) [[Fin 7]] [[Fin 7]] [[Fin 7]]
       [[[Fin 2], [NaN], [Fin big]]] [[[Fin 0.9], [Fin 0.1], [Fin 0]]] [[Fin 0.9, Fin 0.1, Fin 0]]
     = Inr ([[Fin 4]], None, None)"
    by (simp add: loss_eval)
  have c3: "compute_clustering_loss (init (Some (Fin 1))) [[Fin 7]] [[Fin 7]] [[Fin 7]]
       [[[Fin 0], [NaN]]] [[[Fin 0.9], [Fin 0.1]]] [[Fin 0.9, Fin 0.1]]
     = Inr ([[Fin 0]], None, None)"
    by (simp add: loss_eval)
  from a b n1 n2 n3 f1 f2 c1 c2 c3 is_float64_big show ?thesis by (simp only: simp_thms)
qed

text \<open>
  C9, amended. On arrays of consistent shape, for a sample \<open>i\<close> and a feature index \<open>e\<close>
  whose entry of \<open>delta_arr\<close> at the assigned cluster is not NaN: the entry \<open>[i, e]\<close> of
  the encoder delta is the square of that entry, divided by \<open>k\<close> minus the number of
  other clusters whose entry has a square that is not a number (the entry is NaN or an
  infinity, or its square overflows), times the weight, the quotient and the product
  being those of float64. That number of clusters is at least the number of NaN entries
  at the other clusters, and equal to it when every other entry that is not NaN has a
  square that is a number. A NaN at another cluster so makes the denominator smaller; the
  value need not change (0 stays 0).
\<close>

theorem nan_outside_assigned_cluster:
  assumes "rect3 n k d delta_arr" "rect3 n k m q_arr" "0 < k" "0 < m" "i < n" "e < d"
  shows "\<exists>ls enc. assign_label q_arr = Inr ls \<and>
      compute_clustering_loss self observed_arr reconstructed_arr feature_arr delta_arr q_arr p_arr
        = Inr (enc, None, None) \<and>
      nan_others k (ls ! i) (delta_arr ! i) e \<le> nonfinite_others k (ls ! i) (delta_arr ! i) e \<and>
      (\<not> isnan (delta_arr ! i ! (ls ! i) ! e) \<longrightarrow>
         nonfinite_others k (ls ! i) (delta_arr ! i) e < k \<and>
         enc ! i ! e =
           ieee_mul (ieee_div (square (delta_arr ! i ! (ls ! i) ! e))
                       (k - nonfinite_others k (ls ! i) (delta_arr ! i) e))
             (weight self)) \<and>
      ((\<forall>j<k. j \<noteq> ls ! i \<and> \<not> isnan (delta_arr ! i ! j ! e)
              \<longrightarrow> isfinite (square (delta_arr ! i ! j ! e))) \<longrightarrow>
         nonfinite_others k (ls ! i) (delta_arr ! i) e = nan_others k (ls ! i) (delta_arr ! i) e)"
proof -
  let ?ls = "map (\<lambda>r. argmax_index (map (collapse_cell m) r)) q_arr"
  let ?enc = "encoder_delta (weight self) k d ?ls delta_arr"
  let ?l = "?ls ! i"
  let ?c = "nonfinite_others k ?l (delta_arr ! i) e"
  have al: "assign_label q_arr = Inr ?ls" by (rule assign_label_char[OF assms(2,3,4)])
  from assign_label_in_range[OF assms(2,3,4) al]
  have len: "length ?ls = n" and rng: "\<forall>l\<in>set ?ls. l < k" by auto
  have l: "?l < k" using len rng assms(5) by (metis nth_mem)
  have cl: "compute_clustering_loss self observed_arr reconstructed_arr feature_arr
              delta_arr q_arr p_arr = Inr (?enc, None, None)"
    by (rule loss_char[OF assms(1,3) al len rng])
  have en: "?enc ! i ! e = ieee_mul (nanmean (masked_slice k ?l (delta_arr ! i) e)) (weight self)"
    using assms(5,6) len by (simp add: encoder_delta_nth)
  have le: "nan_others k ?l (delta_arr ! i) e \<le> ?c" by (rule nan_others_le)
  have vl: "\<not> isnan (delta_arr ! i ! ?l ! e) \<longrightarrow>
         ?c < k \<and>
         ?enc ! i ! e = ieee_mul (ieee_div (square (delta_arr ! i ! ?l ! e)) (k - ?c)) (weight self)"
  proof
    assume nn: "\<not> isnan (delta_arr ! i ! ?l ! e)"
    have "?c < k" using count_assigned[OF l nn] by simp
    then show "?c < k \<and>
         ?enc ! i ! e = ieee_mul (ieee_div (square (delta_arr ! i ! ?l ! e)) (k - ?c)) (weight self)"
      unfolding en nanmean_masked_assigned[OF l nn] by simp
  qed
  have eq: "(\<forall>j<k. j \<noteq> ?l \<and> \<not> isnan (delta_arr ! i ! j ! e)
              \<longrightarrow> isfinite (square (delta_arr ! i ! j ! e))) \<longrightarrow>
         ?c = nan_others k ?l (delta_arr ! i) e"
    using nan_others_eq by blast
  from al cl le vl eq show ?thesis by blast
qed

text \<open>The theorem at a concrete input: four clusters, two NaN entries at other clusters.\<close>

theorem nan_outside_assigned_cluster_witness:
  "rect3 1 4 1 [[[Fin 2], [NaN], [Fin 7], [NaN]]] \<and>
   nan_others 4 0 [[Fin 2], [NaN], [Fin 7], [NaN]] 0 = 2 \<and>
   (\<exists>enc. compute_clustering_loss (init (Some (Fin 3))) [[Fin 7]] [[Fin 7]] [[Fin 7]]
        [[[Fin 2], [NaN], [Fin 7], [NaN]]] [[[Fin 0.9], [Fin 0.1], [Fin 0], [Fin 0]]]
        [[Fin 0.9, Fin 0.1, Fin 0, Fin 0]] = Inr (enc, None, None) \<and>
      enc ! 0 ! 0 = Fin 6)"
proof -
  let ?d = "[[[Fin 2], [NaN], [Fin 7], [NaN]]]"
  let ?q = "[[[Fin 0.9], [Fin 0.1], [Fin 0], [Fin 0]]]"
  let ?p = "[[Fin 0.9, Fin 0.1, Fin 0, Fin 0]]"
  have r: "rect3 1 4 1 ?d" and rq: "rect3 1 4 1 ?q" by (simp_all add: rect3_def)
  have k: "(0::nat) < 4" and m: "(0::nat) < 1" by simp_all
  from nan_outside_assigned_cluster[OF r rq k m m m, of "init (Some (Fin 3))" "[[Fin 7]]"
      "[[Fin 7]]" "[[Fin 7]]" ?p]
  obtain ls enc where h: "assign_label ?q = Inr ls"
    "compute_clustering_loss (init (Some (Fin 3))) [[Fin 7]] [[Fin 7]] [[Fin 7]] ?d ?q ?p
       = Inr (enc, None, None)"
    "\<not> isnan (?d ! 0 ! (ls ! 0) ! 0) \<longrightarrow>
         nonfinite_others 4 (ls ! 0) (?d ! 0) 0 < 4 \<and>
         enc ! 0 ! 0 =
           ieee_mul (ieee_div (square (?d ! 0 ! (ls ! 0) ! 0))
                       (4 - nonfinite_others 4 (ls ! 0) (?d ! 0) 0))
             (weight (init (Some (Fin 3))))"
    "(\<forall>j<4. j \<noteq> ls ! 0 \<and> \<not> isnan (?d ! 0 ! j ! 0)
              \<longrightarrow> isfinite (square (?d ! 0 ! j ! 0))) \<longrightarrow>
         nonfinite_others 4 (ls ! 0) (?d ! 0) 0 = nan_others 4 (ls ! 0) (?d ! 0) 0"
    by blast
  have "assign_label ?q = Inr [0]" by (simp add: loss_eval)
  with h(1) have ls: "ls = [0]" by simp
  have u: "[0..<4] = [0, 1, 2, Suc 2]" by (simp add: upt_rec)
  have n: "nan_others 4 0 (?d ! 0) 0 = 2"
    by (simp add: nan_others_def u)
  have "\<forall>j<4. j \<noteq> ls ! 0 \<and> \<not> isnan (?d ! 0 ! j ! 0) \<longrightarrow> isfinite (square (?d ! 0 ! j ! 0))"
  proof (intro allI impI)
    fix j :: nat
    assume "j < 4" and a: "j \<noteq> ls ! 0 \<and> \<not> isnan (?d ! 0 ! j ! 0)"
    then consider "j = 0" | "j = 1" | "j = 2" | "j = 3" by linarith
    then show "isfinite (square (?d ! 0 ! j ! 0))"
      using a unfolding ls by cases (simp_all add: square_def ieee_mul_def)
  qed
  with h(4) have c: "nonfinite_others 4 (ls ! 0) (?d ! 0) 0 = 2"
    unfolding ls using n by simp
  have "\<not> isnan (?d ! 0 ! (ls ! 0) ! 0)" unfolding ls by simp
  with h(3) have "enc ! 0 ! 0 =
           ieee_mul (ieee_div (square (?d ! 0 ! (ls ! 0) ! 0))
                       (4 - nonfinite_others 4 (ls ! 0) (?d ! 0) 0))
             (weight (init (Some (Fin 3))))"
    by blast
  moreover have "nonfinite_others 4 0 [[Fin 2], [NaN], [Fin 7], [NaN]] 0 = 2"
    using c unfolding ls by simp
  ultimately have "enc ! 0 ! 0 = Fin 6"
    unfolding ls by (simp add: init_def square_def ieee_mul_def ieee_div_def)
  with h(2) r n show ?thesis by auto
qed

text \<open>
  C10. For a \<open>q_arr\<close> of shape \<open>n \<times> k \<times> m\<close> (\<open>1 \<le> k\<close>, \<open>1 \<le> m\<close>) whose reduction to
  \<open>n \<times> k\<close> has a NaN in row \<open>i\<close>, at index \<open>j\<close> say: the label of sample \<open>i\<close> is the
  index of the first NaN of that row, whatever numbers the row holds elsewhere.
\<close>

theorem assign_label_first_nan:
  assumes "rect3 n k m q_arr" "0 < k" "0 < m" "collapse_q q_arr = Inr rows"
    "i < n" "j < k" "isnan (rows ! i ! j)"
  shows "\<exists>ls. assign_label q_arr = Inr ls \<and> length ls = n \<and> ls ! i \<le> j \<and>
           isnan (rows ! i ! (ls ! i)) \<and> (\<forall>j'<ls ! i. \<not> isnan (rows ! i ! j'))"
proof -
  let ?ls = "map (\<lambda>r. argmax_index (map (collapse_cell m) r)) q_arr"
  have len: "length q_arr = n" by (rule rect3_length[OF assms(1)])
  have rows: "rows = map (map (collapse_cell m)) q_arr"
    using collapse_q_char[OF assms(1,2,3)] assms(4) by simp
  have rk: "length (q_arr ! i) = k" using rect3_nth[OF assms(1,5)] by simp
  have ri: "rows ! i = map (collapse_cell m) (q_arr ! i)"
    using rows assms(5) len by simp
  have ne: "rows ! i \<noteq> []" using ri rk assms(2) by auto
  have am: "argmax (rows ! i) = Inr (argmax_index (rows ! i))"
    using argmax_index[OF ne] by simp
  have ex: "\<exists>x\<in>set (rows ! i). isnan x"
    using assms(6,7) ri rk by (metis length_map nth_mem)
  from argmax_first_nan[OF ex am]
  have a: "isnan (rows ! i ! argmax_index (rows ! i))"
    and b: "\<forall>j'<argmax_index (rows ! i). \<not> isnan (rows ! i ! j')" by auto
  have c: "argmax_index (rows ! i) \<le> j"
    using b assms(7) by (meson not_le_imp_less)
  have "?ls ! i = argmax_index (rows ! i)" using ri assms(5) len by simp
  with a b c show ?thesis
    using assign_label_char[OF assms(1,2,3)] len by auto
qed

text \<open>
  The theorem at a concrete input: the first NaN is at index 1, an infinity follows it.
\<close>

theorem assign_label_first_nan_witness:
  "collapse_q [[[Fin 0.1], [NaN], [PInf], [NaN]]] = Inr [[Fin 0.1, NaN, PInf, NaN]] \<and>
   assign_label [[[Fin 0.1], [NaN], [PInf], [NaN]]] = Inr [1]"
proof -
  have r: "rect3 1 4 1 [[[Fin 0.1], [NaN], [PInf], [NaN]]]"
    by (simp add: rect3_def)
  have c: "collapse_q [[[Fin 0.1], [NaN], [PInf], [NaN]]] = Inr [[Fin 0.1, NaN, PInf, NaN]]"
    by (simp add: collapse_q_def shape2_def reshape_cell_def)
  have k: "(0::nat) < 4" and m: "(0::nat) < 1" and i: "(0::nat) < 1" and j: "(3::nat) < 4"
    by simp_all
  have x: "isnan ([[Fin 0.1, NaN, PInf, NaN]] ! 0 ! 3)" by simp
  from assign_label_first_nan[OF r k m c i j x]
  obtain ls where ls: "assign_label [[[Fin 0.1], [NaN], [PInf], [NaN]]] = Inr ls"
    "length ls = 1" "ls ! 0 \<le> 3" "isnan ([[Fin 0.1, NaN, PInf, NaN]] ! 0 ! (ls ! 0))"
    "\<forall>j'<ls ! 0. \<not> isnan ([[Fin 0.1, NaN, PInf, NaN]] ! 0 ! j')"
    by auto
  have "ls ! 0 = 1"
  proof -
    consider "ls ! 0 = 0" | "ls ! 0 = 1" | "ls ! 0 = 2" | "ls ! 0 = 3"
      using ls(3) by linarith
    then show ?thesis
    proof cases
      case 1
      with ls(4) show ?thesis by simp
    next
      case 2
      then show ?thesis .
    next
      case 3
      with ls(4) show ?thesis by simp
    next
      case 4
      then have "(1::nat) < ls ! 0" by simp
      with ls(5) have "\<not> isnan ([[Fin 0.1, NaN, PInf, NaN]] ! 0 ! 1)" by blast
      then show ?thesis by simp
    qed
  qed
  then have "ls = [1]" using ls(2) by (cases ls) auto
  with ls(1) c show ?thesis by simp
qed

end
